theory Spec2Isabelle
  imports Complex_Main
begin

section \<open>Sky Battles: the game room of the server\<close>

text \<open>
  A shallow embedding of \<^verbatim>\<open>GameRoom\<close> (\<^verbatim>\<open>src/server/index.ts\<close>) and of the balance
  tables of \<^verbatim>\<open>src/shared/constants.ts\<close>.

  JavaScript numbers are modelled as \<^typ>\<open>real\<close> (exact arithmetic, no rounding); counters
  that only ever hold integers (ammo, kills, deaths, the tick) are \<^typ>\<open>int\<close>. The one
  routine that writes \<^verbatim>\<open>Infinity\<close> itself, \<^verbatim>\<open>rayRectIntersect\<close>, computes in a
  number type extended with the two infinities and NaN. A \<^verbatim>\<open>Map\<close> is a list in
  insertion order; mutation is explicit state passing on a record of the room.
  The cosmetic \<^verbatim>\<open>color\<close> of a player is left out (no routine reads it).
  Field names that would clash between records or with HOL constants carry a prefix:
  \<^verbatim>\<open>id\<close> is \<open>pid\<close>, \<open>projId\<close>, \<open>obsId\<close>; \<^verbatim>\<open>x, y, z\<close> are \<open>posX, posY, posZ\<close> on a
  player, \<open>projX, projY, projZ\<close> on a projectile, \<open>rectX, rectY\<close> on a rectangle.
\<close>

subsection \<open>Shared types\<close>

datatype MovementType = WINGS | FIRE_JETPACK | WATER_JETPACK | LEVITATION

datatype WeaponType = MACHINE_GUN | PULSE_LASER | SNIPER | ROCKET

datatype ArenaId = CENTER | TOP | BOTTOM | LEFT | RIGHT
  | SPAWN_NW | SPAWN_NE | SPAWN_SW | SPAWN_SE

record PlayerState =
  pid :: string
  pname :: string
  posX :: real
  posY :: real
  posZ :: real
  velocityX :: real
  velocityY :: real
  velocityZ :: real
  angle :: real
  health :: real
  maxHealth :: real
  fuel :: real
  maxFuel :: real
  currentArena :: ArenaId
  movement :: MovementType
  weapon :: WeaponType
  isInSpawn :: bool
  isDead :: bool
  kills :: int
  deaths :: int
  ammo :: int
  isReloading :: bool

record ProjectileState =
  projId :: nat
  ownerId :: string
  projX :: real
  projY :: real
  projZ :: real
  projAngle :: real
  projSpeed :: real
  projDamage :: real
  projType :: WeaponType
  projArena :: ArenaId
  createdAt :: real

record InputState =
  up :: bool
  down :: bool
  left :: bool
  right :: bool
  jump :: bool
  crouch :: bool
  shooting :: bool
  mouseAngle :: real
  timestamp :: real
  sequence :: int

record Rect =
  rectX :: real
  rectY :: real
  width :: real
  height :: real

record BreakableObstacle = Rect +
  obsId :: string
  obsHealth :: real
  obsMaxHealth :: real

record RoomPlayer =
  lobbyId :: string
  lobbyName :: string
  ready :: bool
  loadoutReady :: bool
  lobbyMovement :: MovementType
  lobbyWeapon :: WeaponType

record ArenaDefinition =
  arenaWidth :: real
  arenaHeight :: real
  walls :: "Rect list"
  breakableObstacles :: "BreakableObstacle list"
  spawnPoints :: "(real \<times> real) list"

subsection \<open>Constants and balance tables\<close>

definition TICK_RATE :: real where [simp]: "TICK_RATE = 20"
definition PLAYER_RADIUS :: real where [simp]: "PLAYER_RADIUS = 20"
definition MAX_HEALTH :: real where [simp]: "MAX_HEALTH = 100"
definition KILL_LIMIT :: int where [simp]: "KILL_LIMIT = 11"
definition MIN_Z :: real where [simp]: "MIN_Z = 0"
definition MAX_Z :: real where [simp]: "MAX_Z = 100"
definition DEFAULT_Z :: real where [simp]: "DEFAULT_Z = 20"
definition Z_HIT_TOLERANCE :: real where [simp]: "Z_HIT_TOLERANCE = 15"
definition GRAVITY :: real where [simp]: "GRAVITY = 1 / 2"
definition MAX_PROJECTILES_PER_PLAYER :: nat where [simp]: "MAX_PROJECTILES_PER_PLAYER = 50"

record MovementStats =
  speed :: real
  acceleration :: real
  friction :: real
  zClimbRate :: real
  zFallRate :: real
  fuelCapacity :: real
  fuelDrain :: real
  fuelRegen :: real
  canHover :: bool

text \<open>\<open>fuelCapacity\<close> is the field \<^verbatim>\<open>fuel\<close> of \<^verbatim>\<open>MovementStats\<close> ("Max fuel (0 = infinite)").\<close>

fun MOVEMENT_STATS :: "MovementType \<Rightarrow> MovementStats" where
  "MOVEMENT_STATS WINGS = \<lparr>speed = 8, acceleration = 6 / 10, friction = 92 / 100,
     zClimbRate = 1, zFallRate = 3 / 10, fuelCapacity = 0, fuelDrain = 0, fuelRegen = 0,
     canHover = False\<rparr>"
| "MOVEMENT_STATS FIRE_JETPACK = \<lparr>speed = 5, acceleration = 8 / 10, friction = 88 / 100,
     zClimbRate = 5, zFallRate = 2, fuelCapacity = 100, fuelDrain = 3, fuelRegen = 3 / 2,
     canHover = False\<rparr>"
| "MOVEMENT_STATS WATER_JETPACK = \<lparr>speed = 5, acceleration = 5 / 10, friction = 9 / 10,
     zClimbRate = 2, zFallRate = 1, fuelCapacity = 100, fuelDrain = 1, fuelRegen = 5 / 2,
     canHover = True\<rparr>"
| "MOVEMENT_STATS LEVITATION = \<lparr>speed = 3, acceleration = 3 / 10, friction = 95 / 100,
     zClimbRate = 1, zFallRate = 0, fuelCapacity = 0, fuelDrain = 0, fuelRegen = 0,
     canHover = True\<rparr>"

record WeaponStats =
  damage :: real
  fireRate :: real
  projectileSpeed :: real
  range :: real
  spread :: real
  clipSize :: int
  reloadTime :: real
  isHitscan :: bool

fun WEAPON_STATS :: "WeaponType \<Rightarrow> WeaponStats" where
  "WEAPON_STATS MACHINE_GUN = \<lparr>damage = 8, fireRate = 10, projectileSpeed = 15,
     range = 400, spread = 1 / 10, clipSize = 30, reloadTime = 40, isHitscan = False\<rparr>"
| "WEAPON_STATS PULSE_LASER = \<lparr>damage = 25, fireRate = 2, projectileSpeed = 20,
     range = 600, spread = 0, clipSize = 8, reloadTime = 30, isHitscan = False\<rparr>"
| "WEAPON_STATS SNIPER = \<lparr>damage = 100, fireRate = 1 / 2, projectileSpeed = 0,
     range = 1000, spread = 0, clipSize = 1, reloadTime = 40, isHitscan = True\<rparr>"
| "WEAPON_STATS ROCKET = \<lparr>damage = 50, fireRate = 1, projectileSpeed = 12,
     range = 600, spread = 0, clipSize = 4, reloadTime = 50, isHitscan = False\<rparr>"

definition rect :: "real \<Rightarrow> real \<Rightarrow> real \<Rightarrow> real \<Rightarrow> Rect" where
  "rect a b w h = \<lparr>rectX = a, rectY = b, width = w, height = h\<rparr>"

definition breakable :: "string \<Rightarrow> real \<Rightarrow> real \<Rightarrow> real \<Rightarrow> real \<Rightarrow> real \<Rightarrow> BreakableObstacle" where
  "breakable i a b w h hp = \<lparr>rectX = a, rectY = b, width = w, height = h,
     obsId = i, obsHealth = hp, obsMaxHealth = hp\<rparr>"

text \<open>
  The arenas, without their platforms, doors and names (no server routine reads them).
  Every arena is \<^verbatim>\<open>GAME_WIDTH\<close> by \<^verbatim>\<open>GAME_HEIGHT\<close> except the four spawn rooms.
\<close>

fun ARENAS :: "ArenaId \<Rightarrow> ArenaDefinition" where
  "ARENAS CENTER = \<lparr>arenaWidth = 1024, arenaHeight = 768,
     walls = [rect 462 334 100 100],
     breakableObstacles = [
       breakable ''center_nw'' 200 200 60 60 50,
       breakable ''center_ne'' 764 200 60 60 50,
       breakable ''center_sw'' 200 508 60 60 50,
       breakable ''center_se'' 764 508 60 60 50,
       breakable ''center_mid_top'' 350 150 80 40 35,
       breakable ''center_mid_bot'' 594 578 80 40 35],
     spawnPoints = [(100, 100), (924, 100), (100, 668), (924, 668)]\<rparr>"
| "ARENAS TOP = \<lparr>arenaWidth = 1024, arenaHeight = 768,
     walls = [rect 150 100 60 500, rect 400 200 60 400, rect 600 100 60 500,
       rect 850 200 60 400],
     breakableObstacles = [],
     spawnPoints = [(50, 700), (974, 700)]\<rparr>"
| "ARENAS BOTTOM = \<lparr>arenaWidth = 1024, arenaHeight = 768,
     walls = [rect 200 0 40 300, rect 200 400 40 368, rect 400 100 40 400,
       rect 600 268 40 500, rect 800 0 40 400, rect 800 500 40 268],
     breakableObstacles = [],
     spawnPoints = [(100, 384), (924, 384)]\<rparr>"
| "ARENAS LEFT = \<lparr>arenaWidth = 1024, arenaHeight = 768,
     walls = [rect 0 300 400 40, rect 300 340 100 200],
     breakableObstacles = [],
     spawnPoints = [(200, 200), (800, 650)]\<rparr>"
| "ARENAS RIGHT = \<lparr>arenaWidth = 1024, arenaHeight = 768,
     walls = [rect 150 150 200 40, rect 150 150 40 200, rect 450 100 40 300,
       rect 450 100 200 40, rect 650 100 40 200, rect 200 450 300 40,
       rect 200 450 40 200, rect 600 400 40 300, rect 600 400 200 40,
       rect 750 550 200 40],
     breakableObstacles = [],
     spawnPoints = [(80, 80), (944, 688)]\<rparr>"
| "ARENAS SPAWN_NW = \<lparr>arenaWidth = 200, arenaHeight = 200, walls = [],
     breakableObstacles = [], spawnPoints = [(100, 100)]\<rparr>"
| "ARENAS SPAWN_NE = \<lparr>arenaWidth = 200, arenaHeight = 200, walls = [],
     breakableObstacles = [], spawnPoints = [(100, 100)]\<rparr>"
| "ARENAS SPAWN_SW = \<lparr>arenaWidth = 200, arenaHeight = 200, walls = [],
     breakableObstacles = [], spawnPoints = [(100, 100)]\<rparr>"
| "ARENAS SPAWN_SE = \<lparr>arenaWidth = 200, arenaHeight = 200, walls = [],
     breakableObstacles = [], spawnPoints = [(100, 100)]\<rparr>"

subsection \<open>Geometry helpers\<close>

text \<open>
  \<^verbatim>\<open>rayRectIntersect\<close> multiplies by \<^verbatim>\<open>Infinity\<close> when a direction component is zero,
  so its intermediate values live in the finite numbers extended by both infinities and NaN.
  The operations below are the IEEE ones the routine uses: \<^verbatim>\<open>0 * Infinity\<close> is NaN, every
  comparison with NaN is false, and \<^verbatim>\<open>Math.max\<close>/\<^verbatim>\<open>Math.min\<close> return NaN when an
  argument is NaN.
\<close>

datatype jsnum = NaN | NegInf | Fin real | PosInf

fun js_times :: "real \<Rightarrow> jsnum \<Rightarrow> jsnum" where
  "js_times a (Fin b) = Fin (a * b)"
| "js_times a PosInf = (if a = 0 then NaN else if 0 < a then PosInf else NegInf)"
| "js_times a NegInf = (if a = 0 then NaN else if 0 < a then NegInf else PosInf)"
| "js_times a NaN = NaN"

fun js_gt :: "jsnum \<Rightarrow> jsnum \<Rightarrow> bool" where
  "js_gt NaN b = False"
| "js_gt a NaN = False"
| "js_gt (Fin a) (Fin b) = (a > b)"
| "js_gt PosInf b = (b \<noteq> PosInf)"
| "js_gt a PosInf = False"
| "js_gt a NegInf = (a \<noteq> NegInf)"
| "js_gt NegInf b = False"

definition js_lt :: "jsnum \<Rightarrow> jsnum \<Rightarrow> bool" where
  "js_lt a b = js_gt b a"

definition js_max :: "jsnum \<Rightarrow> jsnum \<Rightarrow> jsnum" where
  "js_max a b = (if a = NaN \<or> b = NaN then NaN else if js_gt b a then b else a)"

definition js_min :: "jsnum \<Rightarrow> jsnum \<Rightarrow> jsnum" where
  "js_min a b = (if a = NaN \<or> b = NaN then NaN else if js_gt a b then b else a)"

definition invDir :: "real \<Rightarrow> jsnum" where
  "invDir d = (if d = 0 then PosInf else Fin (1 / d))"

text \<open>Ray-AABB intersection, slab method; \<open>None\<close> is the routine's \<^verbatim>\<open>null\<close>.\<close>

definition rayRectIntersect ::
  "real \<Rightarrow> real \<Rightarrow> real \<Rightarrow> real \<Rightarrow> 'a Rect_scheme \<Rightarrow> jsnum option" where
  "rayRectIntersect ox oy dx dy r =
    (let invDx = invDir dx;
         invDy = invDir dy;
         tMin0 = js_times (rectX r - ox) invDx;
         tMax0 = js_times (rectX r + width r - ox) invDx;
         tMin = (if js_gt tMin0 tMax0 then tMax0 else tMin0);
         tMax = (if js_gt tMin0 tMax0 then tMin0 else tMax0);
         tyMin0 = js_times (rectY r - oy) invDy;
         tyMax0 = js_times (rectY r + height r - oy) invDy;
         tyMin = (if js_gt tyMin0 tyMax0 then tyMax0 else tyMin0);
         tyMax = (if js_gt tyMin0 tyMax0 then tyMin0 else tyMax0);
         tEnter = js_max tMin tyMin;
         tExit = js_min tMax tyMax
     in if js_gt tEnter tExit \<or> js_lt tExit (Fin 0) then None
        else Some (if js_gt tEnter (Fin 0) then tEnter else tExit))"

definition rectCircleCollision :: "'a Rect_scheme \<Rightarrow> real \<Rightarrow> real \<Rightarrow> real \<Rightarrow> bool" where
  "rectCircleCollision r cx cy rad =
    (let nearestX = max (rectX r) (min cx (rectX r + width r));
         nearestY = max (rectY r) (min cy (rectY r + height r));
         dx = cx - nearestX;
         dy = cy - nearestY
     in dx * dx + dy * dy < rad * rad)"

definition pointInRect :: "real \<Rightarrow> real \<Rightarrow> real \<Rightarrow> real \<Rightarrow> real \<Rightarrow> real \<Rightarrow> bool" where
  "pointInRect px py rx ry rw rh =
    (px \<ge> rx \<and> px \<le> rx + rw \<and> py \<ge> ry \<and> py \<le> ry + rh)"

text \<open>\<^verbatim>\<open>Math.atan2(y, x)\<close> on the reals.\<close>

definition atan2 :: "real \<Rightarrow> real \<Rightarrow> real" where
  "atan2 y x =
    (if 0 < x then arctan (y / x)
     else if x < 0 \<and> 0 \<le> y then arctan (y / x) + pi
     else if x < 0 then arctan (y / x) - pi
     else if 0 < y then pi / 2
     else if y < 0 then - (pi / 2)
     else 0)"

subsection \<open>The room\<close>

text \<open>
  Timers: \<^verbatim>\<open>setTimeout\<close> appends a callback under a fresh handle to \<open>pendingTimers\<close>,
  \<^verbatim>\<open>clearTimeout\<close> removes the handle, and a timer that fires leaves the list before its
  callback runs. Delays are not modelled: a pending timer may fire between any two
  operations. A callback closes over its player object; the model names the player by id
  (the room cancels a player's timers whenever it drops the object from \<^verbatim>\<open>players\<close>).
\<close>

datatype callback = ReloadDone string WeaponType | SpawnProtectionOver string
  | RoomInfoBroadcast

datatype emit =
    EvHitscan string real real real real
  | EvHit string real string
  | EvKill string string
  | EvEnded string "(string \<times> int \<times> int) list"
  | EvState "PlayerState list" "ProjectileState list" "BreakableObstacle list" real int
  | EvLoadoutPhase
  | EvRoomUpdated

record GameRoom =
  lobbyPlayers :: "RoomPlayer list"
  players :: "PlayerState list"
  projectiles :: "ProjectileState list"
  obstacles :: "BreakableObstacle list"
  playerInputs :: "string \<Rightarrow> InputState option"
  gameStarted :: bool
  inLoadoutPhase :: bool
  gameLoop :: bool
  tick :: int
  projectileIdCounter :: nat
  lastShotTime :: "string \<Rightarrow> real option"
  reloadTimers :: "(string \<times> nat) list"
  spawnProtectionTimers :: "(string \<times> nat) list"
  countdownStarted :: bool
  pendingTimers :: "(nat \<times> callback) list"
  nextTimer :: nat
  emitted :: "emit list"

definition getPlayer :: "string \<Rightarrow> GameRoom \<Rightarrow> PlayerState option" where
  "getPlayer k s = find (\<lambda>p. pid p = k) (players s)"

definition modPlayer :: "string \<Rightarrow> (PlayerState \<Rightarrow> PlayerState) \<Rightarrow> GameRoom \<Rightarrow> GameRoom" where
  "modPlayer k f s = s\<lparr>players := map (\<lambda>p. if pid p = k then f p else p) (players s)\<rparr>"

definition getProjectile :: "nat \<Rightarrow> GameRoom \<Rightarrow> ProjectileState option" where
  "getProjectile k s = find (\<lambda>q. projId q = k) (projectiles s)"

definition deleteProjectile :: "nat \<Rightarrow> GameRoom \<Rightarrow> GameRoom" where
  "deleteProjectile k s = s\<lparr>projectiles := filter (\<lambda>q. projId q \<noteq> k) (projectiles s)\<rparr>"

definition emit :: "emit \<Rightarrow> GameRoom \<Rightarrow> GameRoom" where
  "emit e s = s\<lparr>emitted := emitted s @ [e]\<rparr>"

definition setTimeout :: "callback \<Rightarrow> GameRoom \<Rightarrow> GameRoom" where
  "setTimeout cb s = s\<lparr>pendingTimers := pendingTimers s @ [(nextTimer s, cb)],
     nextTimer := Suc (nextTimer s)\<rparr>"

definition clearTimeout :: "nat \<Rightarrow> GameRoom \<Rightarrow> GameRoom" where
  "clearTimeout h s = s\<lparr>pendingTimers := filter (\<lambda>e. fst e \<noteq> h) (pendingTimers s)\<rparr>"

definition mapSet :: "'k \<Rightarrow> 'v \<Rightarrow> ('k \<times> 'v) list \<Rightarrow> ('k \<times> 'v) list" where
  "mapSet k v m = (if k \<in> fst ` set m then map (\<lambda>e. if fst e = k then (k, v) else e) m
     else m @ [(k, v)])"

definition mapDelete :: "'k \<Rightarrow> ('k \<times> 'v) list \<Rightarrow> ('k \<times> 'v) list" where
  "mapDelete k m = filter (\<lambda>e. fst e \<noteq> k) m"

text \<open>
  The obstacle damage shared by the hitscan and the projectile path:
  \<^verbatim>\<open>obs.health -= damage; if (obs.health <= 0) this.obstacles.delete(id)\<close>.
\<close>

definition damageObstacle :: "string \<Rightarrow> real \<Rightarrow> GameRoom \<Rightarrow> GameRoom" where
  "damageObstacle k dmg s =
    s\<lparr>obstacles := filter (\<lambda>ob. \<not> (obsId ob = k \<and> obsHealth ob \<le> 0))
       (map (\<lambda>ob. if obsId ob = k then ob\<lparr>obsHealth := obsHealth ob - dmg\<rparr> else ob)
          (obstacles s))\<rparr>"

subsection \<open>Movement: the first part of \<^verbatim>\<open>updatePlayer\<close>\<close>

definition targetVelocity :: "MovementStats \<Rightarrow> InputState \<Rightarrow> real \<times> real" where
  "targetVelocity stats input =
    (let targetVelX = 0 - (if left input then speed stats else 0)
           + (if right input then speed stats else 0);
         targetVelY = 0 - (if up input then speed stats else 0)
           + (if down input then speed stats else 0)
     in if targetVelX \<noteq> 0 \<and> targetVelY \<noteq> 0
        then (targetVelX * (1 / sqrt 2), targetVelY * (1 / sqrt 2))
        else (targetVelX, targetVelY))"

text \<open>
  "Handle fuel for jetpacks": from the ascend flag and the fuel, the ascend flag that
  remains (\<^verbatim>\<open>wantsToAscend\<close>) and the new fuel.
\<close>

definition fuelStep :: "MovementStats \<Rightarrow> bool \<Rightarrow> bool \<Rightarrow> real \<Rightarrow> bool \<times> real" where
  "fuelStep stats isGrounded jumpFlag fuel0 =
    (if fuelCapacity stats > 0 then
       (let fuel1 = (if jumpFlag \<and> fuel0 > 0 then max 0 (fuel0 - fuelDrain stats) else fuel0);
            wantsToAscend = (if jumpFlag \<and> fuel0 > 0 then jumpFlag
               else if jumpFlag \<and> fuel0 \<le> 0 then False else jumpFlag);
            fuel2 = (if isGrounded \<and> \<not> wantsToAscend
               then min (fuelCapacity stats) (fuel1 + fuelRegen stats) else fuel1)
        in (wantsToAscend, fuel2))
     else (jumpFlag, fuel0))"

definition verticalVelocity ::
  "MovementStats \<Rightarrow> MovementType \<Rightarrow> bool \<Rightarrow> bool \<Rightarrow> real \<Rightarrow> real \<Rightarrow> real" where
  "verticalVelocity stats mv wantsToAscend wantsToDescend vx vy =
    (if wantsToAscend then zClimbRate stats
     else if wantsToDescend then - zClimbRate stats
     else if canHover stats then 0
     else (let isMoving = (\<bar>vx\<bar> > 1 / 2 \<or> \<bar>vy\<bar> > 1 / 2);
               fallRate = (if mv = WINGS then (if isMoving then zFallRate stats else GRAVITY)
                  else zFallRate stats)
           in - fallRate))"

definition pushOut :: "Rect \<Rightarrow> real \<times> real \<Rightarrow> real \<times> real" where
  "pushOut wall pos =
    (if rectCircleCollision wall (fst pos) (snd pos) PLAYER_RADIUS then
       (let centerX = rectX wall + width wall / 2;
            centerY = rectY wall + height wall / 2;
            ang = atan2 (snd pos - centerY) (fst pos - centerX)
        in (centerX + cos ang * (width wall / 2 + PLAYER_RADIUS + 1),
            centerY + sin ang * (height wall / 2 + PLAYER_RADIUS + 1)))
     else pos)"

definition movePlayer :: "PlayerState \<Rightarrow> InputState \<Rightarrow> PlayerState" where
  "movePlayer player input =
    (let stats = MOVEMENT_STATS (movement player);
         target = targetVelocity stats input;
         vx = (velocityX player + (fst target - velocityX player) * acceleration stats)
                * friction stats;
         vy = (velocityY player + (snd target - velocityY player) * acceleration stats)
                * friction stats;
         isGrounded = (posZ player \<le> MIN_Z + 5);
         fs = fuelStep stats isGrounded (jump input) (fuel player);
         vz = verticalVelocity stats (movement player) (fst fs) (crouch input) vx vy;
         arena = ARENAS (currentArena player);
         bx = max PLAYER_RADIUS (min (arenaWidth arena - PLAYER_RADIUS) (posX player + vx));
         by = max PLAYER_RADIUS (min (arenaHeight arena - PLAYER_RADIUS) (posY player + vy));
         pos = fold pushOut (walls arena) (bx, by)
     in player\<lparr>angle := mouseAngle input, velocityX := vx, velocityY := vy,
          fuel := snd fs, velocityZ := vz,
          posX := fst pos, posY := snd pos,
          posZ := max MIN_Z (min MAX_Z (posZ player + vz))\<rparr>)"

subsection \<open>Damage and the end of the match\<close>

definition endGame :: "string \<Rightarrow> GameRoom \<Rightarrow> GameRoom" where
  "endGame winnerId s =
    (let scores = map (\<lambda>p. (pid p, kills p, deaths p)) (players s);
         s1 = emit (EvEnded winnerId scores) (s\<lparr>gameLoop := False\<rparr>);
         cancelled = snd ` set (reloadTimers s1) \<union> snd ` set (spawnProtectionTimers s1);
         s2 = s1\<lparr>gameStarted := False, inLoadoutPhase := False, countdownStarted := False,
                players := [], projectiles := [], obstacles := [],
                playerInputs := (\<lambda>_. None), lastShotTime := (\<lambda>_. None),
                pendingTimers := filter (\<lambda>e. fst e \<notin> cancelled) (pendingTimers s1),
                reloadTimers := [], spawnProtectionTimers := [],
                lobbyPlayers := map (\<lambda>lp. lp\<lparr>ready := False, loadoutReady := False\<rparr>)
                   (lobbyPlayers s1)\<rparr>
     in setTimeout RoomInfoBroadcast s2)"

definition damagePlayer :: "string \<Rightarrow> real \<Rightarrow> string \<Rightarrow> GameRoom \<Rightarrow> GameRoom" where
  "damagePlayer targetId dmg sourceId s =
    (case getPlayer targetId s of
       None \<Rightarrow> s
     | Some player \<Rightarrow>
        if health player - dmg \<le> 0 then
          (let s1 = modPlayer targetId
                      (\<lambda>p. p\<lparr>health := 0, isDead := True, deaths := deaths p + 1\<rparr>) s;
               s2 = modPlayer sourceId (\<lambda>p. p\<lparr>kills := kills p + 1\<rparr>) s1;
               s3 = emit (EvKill sourceId targetId) s2
           in case getPlayer sourceId s3 of
                None \<Rightarrow> s3
              | Some source \<Rightarrow> if kills source \<ge> KILL_LIMIT then endGame (pid source) s3 else s3)
        else modPlayer targetId (\<lambda>p. p\<lparr>health := health p - dmg\<rparr>) s)"

subsection \<open>Shooting\<close>

definition startReload :: "string \<Rightarrow> GameRoom \<Rightarrow> GameRoom" where
  "startReload a s =
    (case getPlayer a s of
       None \<Rightarrow> s
     | Some player \<Rightarrow>
        (let s1 = modPlayer a (\<lambda>p. p\<lparr>isReloading := True\<rparr>) s;
             timer = nextTimer s1;
             s2 = setTimeout (ReloadDone a (weapon player)) s1
         in s2\<lparr>reloadTimers := mapSet a timer (reloadTimers s2)\<rparr>))"

text \<open>A wall on the ray: updates \<^verbatim>\<open>closestObsDist\<close> and resets \<^verbatim>\<open>hitBreakableId\<close>.\<close>

definition finValue :: "jsnum \<Rightarrow> real" where
  "finValue v = (case v of Fin r \<Rightarrow> r | _ \<Rightarrow> 0)"

definition nearer :: "jsnum option \<Rightarrow> real \<Rightarrow> bool" where
  "nearer t closest = (case t of None \<Rightarrow> False
     | Some v \<Rightarrow> js_gt v (Fin 0) \<and> js_lt v (Fin closest))"

definition wallBlock ::
  "real \<Rightarrow> real \<Rightarrow> real \<Rightarrow> real \<Rightarrow> Rect \<Rightarrow> real \<times> string option \<Rightarrow> real \<times> string option" where
  "wallBlock startX startY dirX dirY wall acc =
    (let t = rayRectIntersect startX startY dirX dirY wall
     in if nearer t (fst acc) then (finValue (the t), None) else acc)"

definition obstacleBlock ::
  "real \<Rightarrow> real \<Rightarrow> real \<Rightarrow> real \<Rightarrow> BreakableObstacle \<Rightarrow> real \<times> string option
    \<Rightarrow> real \<times> string option" where
  "obstacleBlock startX startY dirX dirY obs acc =
    (let t = rayRectIntersect startX startY dirX dirY obs
     in if nearer t (fst acc) then (finValue (the t), Some (obsId obs)) else acc)"

text \<open>The eligibility tests and the ray-circle intersection of one candidate target.\<close>

definition hitscanEligible :: "PlayerState \<Rightarrow> PlayerState \<Rightarrow> bool" where
  "hitscanEligible player target =
    (\<not> (pid target = pid player) \<and> \<not> isDead target
     \<and> \<not> (currentArena target \<noteq> currentArena player) \<and> \<not> isInSpawn target
     \<and> \<not> (\<bar>posZ target - posZ player\<bar> > Z_HIT_TOLERANCE))"

definition rayCircle :: "real \<Rightarrow> real \<Rightarrow> real \<Rightarrow> real \<Rightarrow> PlayerState \<Rightarrow> real option" where
  "rayCircle startX startY dirX dirY target =
    (let dx = posX target - startX;
         dy = posY target - startY;
         a = dirX * dirX + dirY * dirY;
         b = 2 * (dirX * (- dx) + dirY * (- dy));
         c = dx * dx + dy * dy - PLAYER_RADIUS * PLAYER_RADIUS;
         discriminant = b * b - 4 * a * c
     in if discriminant \<ge> 0 then Some ((- b - sqrt discriminant) / (2 * a)) else None)"

definition playerHit ::
  "PlayerState \<Rightarrow> real \<Rightarrow> real \<Rightarrow> real \<Rightarrow> real \<Rightarrow> PlayerState \<Rightarrow> string option \<times> real
    \<Rightarrow> string option \<times> real" where
  "playerHit player startX startY dirX dirY target acc =
    (if hitscanEligible player target then
       (case rayCircle startX startY dirX dirY target of
          None \<Rightarrow> acc
        | Some t \<Rightarrow> if t > 0 \<and> t < snd acc then (Some (pid target), t) else acc)
     else acc)"

text \<open>
  The three searches of \<^verbatim>\<open>handleHitscan\<close>: the nearest wall or obstacle, then the nearest
  eligible player in front of it, then the distance at which the beam ends.
\<close>

definition nearestObstacle ::
  "PlayerState \<Rightarrow> real \<Rightarrow> real \<Rightarrow> GameRoom \<Rightarrow> real \<times> string option" where
  "nearestObstacle player ang rng s =
    (let startX = posX player; startY = posY player;
         dirX = cos ang; dirY = sin ang;
         arena = ARENAS (currentArena player)
     in fold (obstacleBlock startX startY dirX dirY) (obstacles s)
          (fold (wallBlock startX startY dirX dirY) (walls arena) (rng, None)))"

definition nearestPlayer ::
  "PlayerState \<Rightarrow> real \<Rightarrow> real \<Rightarrow> GameRoom \<Rightarrow> string option \<times> real" where
  "nearestPlayer player ang closestObsDist s =
    fold (playerHit player (posX player) (posY player) (cos ang) (sin ang)) (players s)
      (None, closestObsDist)"

definition handleHitscan :: "string \<Rightarrow> real \<Rightarrow> real \<Rightarrow> real \<Rightarrow> GameRoom \<Rightarrow> GameRoom" where
  "handleHitscan a ang dmg rng s =
    (case getPlayer a s of
       None \<Rightarrow> s
     | Some player \<Rightarrow>
        (let obsRes = nearestObstacle player ang rng s;
             closestObsDist = fst obsRes;
             hitBreakableId = snd obsRes;
             plRes = nearestPlayer player ang closestObsDist s;
             closestHit = fst plRes;
             closestPlayerDist = snd plRes;
             endDist = (if closestHit \<noteq> None then closestPlayerDist else closestObsDist);
             s1 = emit (EvHitscan a (posX player) (posY player)
                    (posX player + cos ang * endDist) (posY player + sin ang * endDist)) s
         in case closestHit of
              Some targetId \<Rightarrow> emit (EvHit targetId dmg a) (damagePlayer targetId dmg a s1)
            | None \<Rightarrow>
               (case hitBreakableId of
                  None \<Rightarrow> s1
                | Some obsKey \<Rightarrow> if obsKey = [] then s1 else damageObstacle obsKey dmg s1)))"

text \<open>
  \<open>now\<close> is \<^verbatim>\<open>Date.now()\<close> and \<open>rnd\<close> is \<^verbatim>\<open>Math.random()\<close>; the projectile id
  \<^verbatim>\<open>proj_<n>\<close> is its number \<open>n\<close>.
\<close>

definition tryShoot :: "real \<Rightarrow> real \<Rightarrow> string \<Rightarrow> GameRoom \<Rightarrow> GameRoom" where
  "tryShoot now rnd a s =
    (case getPlayer a s of
       None \<Rightarrow> s
     | Some player \<Rightarrow>
        if ammo player \<le> 0 \<or> isReloading player then s
        else
          (let weaponStats = WEAPON_STATS (weapon player);
               lastShot = (case lastShotTime s a of None \<Rightarrow> 0 | Some t \<Rightarrow> t);
               cooldown = 1000 / fireRate weaponStats
           in if now - lastShot < cooldown then s
              else if length (filter (\<lambda>q. ownerId q = a) (projectiles s))
                        \<ge> MAX_PROJECTILES_PER_PLAYER then s
              else
                (let s1 = s\<lparr>lastShotTime := (lastShotTime s)(a \<mapsto> now)\<rparr>;
                     s2 = modPlayer a (\<lambda>p. p\<lparr>ammo := ammo p - 1\<rparr>) s1;
                     s3 = (if ammo player - 1 \<le> 0 then startReload a s2 else s2);
                     ang = angle player + (rnd - 1 / 2) * spread weaponStats
                 in if isHitscan weaponStats
                    then handleHitscan a ang (damage weaponStats) (range weaponStats) s3
                    else s3\<lparr>projectiles := projectiles s3 @
                           [\<lparr>projId = projectileIdCounter s3, ownerId = a,
                             projX = posX player + cos ang * (PLAYER_RADIUS + 5),
                             projY = posY player + sin ang * (PLAYER_RADIUS + 5),
                             projZ = posZ player, projAngle = ang,
                             projSpeed = projectileSpeed weaponStats,
                             projDamage = damage weaponStats,
                             projType = weapon player, projArena = currentArena player,
                             createdAt = now\<rparr>],
                         projectileIdCounter := Suc (projectileIdCounter s3)\<rparr>)))"

definition updatePlayer :: "real \<Rightarrow> real \<Rightarrow> string \<Rightarrow> InputState \<Rightarrow> GameRoom \<Rightarrow> GameRoom" where
  "updatePlayer now rnd a input s =
    (let s1 = modPlayer a (\<lambda>p. movePlayer p input) s
     in if shooting input then tryShoot now rnd a s1 else s1)"

definition manualReload :: "string \<Rightarrow> GameRoom \<Rightarrow> GameRoom" where
  "manualReload a s =
    (case getPlayer a s of
       None \<Rightarrow> s
     | Some player \<Rightarrow>
        if isDead player \<or> isReloading player then s
        else if ammo player \<ge> clipSize (WEAPON_STATS (weapon player)) then s
        else startReload a s)"

subsection \<open>Projectiles\<close>

text \<open>
  A loop over a \<^verbatim>\<open>Map\<close> that deletes entries while it runs visits the keys present at
  its start and skips those deleted meanwhile: a \<open>fold\<close> over the keys whose body looks
  the entry up again. A loop that stops at its first match (\<^verbatim>\<open>break\<close>) is a \<open>find\<close>.
\<close>

definition projectileStep :: "real \<Rightarrow> nat \<Rightarrow> GameRoom \<Rightarrow> GameRoom" where
  "projectileStep now k s =
    (case getProjectile k s of
       None \<Rightarrow> s
     | Some proj0 \<Rightarrow>
        (let proj = proj0\<lparr>projX := projX proj0 + cos (projAngle proj0) * projSpeed proj0,
                           projY := projY proj0 + sin (projAngle proj0) * projSpeed proj0\<rparr>;
             s1 = s\<lparr>projectiles := map (\<lambda>q. if projId q = k then proj else q) (projectiles s)\<rparr>;
             arena = ARENAS (projArena proj);
             age = now - createdAt proj;
             maxAge = 5000
         in if projX proj < 0 \<or> projX proj > arenaWidth arena
               \<or> projY proj < 0 \<or> projY proj > arenaHeight arena \<or> age > maxAge
            then deleteProjectile k s1
            else if list_ex (\<lambda>wall. pointInRect (projX proj) (projY proj)
                       (rectX wall) (rectY wall) (width wall) (height wall)) (walls arena)
            then deleteProjectile k s1
            else (case find (\<lambda>obs. pointInRect (projX proj) (projY proj)
                         (rectX obs) (rectY obs) (width obs) (height obs)) (obstacles s1) of
                    None \<Rightarrow> s1
                  | Some obs \<Rightarrow>
                     deleteProjectile k (damageObstacle (obsId obs) (projDamage proj) s1))))"

definition updateProjectiles :: "real \<Rightarrow> GameRoom \<Rightarrow> GameRoom" where
  "updateProjectiles now s = fold (projectileStep now) (map projId (projectiles s)) s"

definition collides :: "ProjectileState \<Rightarrow> PlayerState \<Rightarrow> bool" where
  "collides proj player =
    (\<not> (pid player = ownerId proj) \<and> \<not> isDead player
     \<and> \<not> (currentArena player \<noteq> projArena proj) \<and> \<not> isInSpawn player
     \<and> \<not> (\<bar>posZ player - projZ proj\<bar> > Z_HIT_TOLERANCE)
     \<and> (let dx = posX player - projX proj;
             dy = posY player - projY proj;
             dist = sqrt (dx * dx + dy * dy)
         in dist < PLAYER_RADIUS))"

definition collisionStep :: "nat \<Rightarrow> GameRoom \<Rightarrow> GameRoom" where
  "collisionStep k s =
    (case getProjectile k s of
       None \<Rightarrow> s
     | Some proj \<Rightarrow>
        (case find (collides proj) (players s) of
           None \<Rightarrow> s
         | Some player \<Rightarrow>
            deleteProjectile k
              (emit (EvHit (pid player) (projDamage proj) (ownerId proj))
                 (damagePlayer (pid player) (projDamage proj) (ownerId proj) s))))"

definition checkCollisions :: "GameRoom \<Rightarrow> GameRoom" where
  "checkCollisions s = fold collisionStep (map projId (projectiles s)) s"

subsection \<open>The tick\<close>

text \<open>
  \<open>rnd\<close> gives the value \<^verbatim>\<open>Math.random()\<close> returns to each player's shot of this tick
  (a player shoots at most once per tick); one clock value \<open>now\<close> serves the whole tick.
\<close>

definition updateOne :: "real \<Rightarrow> (string \<Rightarrow> real) \<Rightarrow> string \<Rightarrow> GameRoom \<Rightarrow> GameRoom" where
  "updateOne now rnd k s =
    (case getPlayer k s of
       None \<Rightarrow> s
     | Some player \<Rightarrow>
        if isDead player then s
        else (case playerInputs s k of
                None \<Rightarrow> s
              | Some input \<Rightarrow> updatePlayer now (rnd k) k input s))"

definition update :: "real \<Rightarrow> (string \<Rightarrow> real) \<Rightarrow> GameRoom \<Rightarrow> GameRoom" where
  "update now rnd s =
    checkCollisions (updateProjectiles now
      (fold (updateOne now rnd) (map pid (players s)) s))"

definition broadcastState :: "real \<Rightarrow> GameRoom \<Rightarrow> GameRoom" where
  "broadcastState now s =
    emit (EvState (players s) (projectiles s) (obstacles s) now (tick s)) s"

text \<open>
  One firing of the interval that \<^verbatim>\<open>startGameLoop\<close> installs; \<^verbatim>\<open>clearInterval\<close> (here
  \<open>gameLoop = False\<close>) stops later firings, not the one that is running.
\<close>

definition gameTick :: "real \<Rightarrow> (string \<Rightarrow> real) \<Rightarrow> GameRoom \<Rightarrow> GameRoom" where
  "gameTick now rnd s =
    (if gameLoop s then
       (let s1 = broadcastState now (update now rnd s) in s1\<lparr>tick := tick s1 + 1\<rparr>)
     else s)"

subsection \<open>Respawn, spawn protection, loadout, timers\<close>

definition cancelTimer :: "string \<Rightarrow> (string \<times> nat) list \<Rightarrow> GameRoom \<Rightarrow> GameRoom" where
  "cancelTimer a timers s =
    (case map_of timers a of None \<Rightarrow> s | Some h \<Rightarrow> clearTimeout h s)"

definition grantSpawnProtection :: "string \<Rightarrow> GameRoom \<Rightarrow> GameRoom" where
  "grantSpawnProtection a s =
    (let s1 = modPlayer a (\<lambda>p. p\<lparr>isInSpawn := True\<rparr>) s;
         s2 = cancelTimer a (spawnProtectionTimers s1) s1;
         timer = nextTimer s2;
         s3 = setTimeout (SpawnProtectionOver a) s2
     in s3\<lparr>spawnProtectionTimers := mapSet a timer (spawnProtectionTimers s3)\<rparr>)"

fun indexOf :: "'a \<Rightarrow> 'a list \<Rightarrow> nat" where
  "indexOf k [] = 0"
| "indexOf k (x # xs) = (if x = k then 0 else Suc (indexOf k xs))"

text \<open>
  \<open>indexOf\<close> is only applied to the id of a player found in \<^verbatim>\<open>players\<close>, where
  \<^verbatim>\<open>Array.indexOf\<close> does not return -1.
\<close>

definition respawnPlayer :: "string \<Rightarrow> GameRoom \<Rightarrow> GameRoom" where
  "respawnPlayer a s =
    (case getPlayer a s of
       None \<Rightarrow> s
     | Some player \<Rightarrow>
        if \<not> isDead player then s
        else
          (let playerIndex = indexOf a (map pid (players s));
               arena = ARENAS CENTER;
               spawn = spawnPoints arena ! (playerIndex mod length (spawnPoints arena));
               s1 = modPlayer a (\<lambda>p. p\<lparr>posX := fst spawn, posY := snd spawn,
                      posZ := DEFAULT_Z, velocityX := 0, velocityY := 0, velocityZ := 0,
                      health := MAX_HEALTH, fuel := maxFuel p, currentArena := CENTER,
                      isDead := False, ammo := clipSize (WEAPON_STATS (weapon p)),
                      isReloading := False\<rparr>) s;
               s2 = (cancelTimer a (reloadTimers s1) s1)
                      \<lparr>reloadTimers := mapDelete a (reloadTimers s1)\<rparr>
           in grantSpawnProtection a s2))"

definition setPlayerLoadout :: "string \<Rightarrow> MovementType \<Rightarrow> WeaponType \<Rightarrow> GameRoom \<Rightarrow> GameRoom" where
  "setPlayerLoadout a mv wp s =
    (let s1 = s\<lparr>lobbyPlayers := map (\<lambda>lp. if lobbyId lp = a
                    then lp\<lparr>lobbyMovement := mv, lobbyWeapon := wp\<rparr> else lp) (lobbyPlayers s)\<rparr>
     in case getPlayer a s1 of
          None \<Rightarrow> s1
        | Some player \<Rightarrow>
           (let s2 = modPlayer a (\<lambda>p. p\<lparr>movement := mv, weapon := wp,
                       maxFuel := fuelCapacity (MOVEMENT_STATS mv),
                       fuel := fuelCapacity (MOVEMENT_STATS mv),
                       ammo := clipSize (WEAPON_STATS wp), isReloading := False\<rparr>) s1
            in (cancelTimer a (reloadTimers s2) s2)
                 \<lparr>reloadTimers := mapDelete a (reloadTimers s2)\<rparr>))"

definition removePlayer :: "string \<Rightarrow> GameRoom \<Rightarrow> GameRoom" where
  "removePlayer a s =
    (let s1 = s\<lparr>lobbyPlayers := filter (\<lambda>lp. lobbyId lp \<noteq> a) (lobbyPlayers s),
                players := filter (\<lambda>p. pid p \<noteq> a) (players s),
                playerInputs := (playerInputs s)(a := None)\<rparr>;
         s2 = (cancelTimer a (reloadTimers s1) s1)
                \<lparr>reloadTimers := mapDelete a (reloadTimers s1)\<rparr>
     in (cancelTimer a (spawnProtectionTimers s2) s2)
          \<lparr>spawnProtectionTimers := mapDelete a (spawnProtectionTimers s2)\<rparr>)"

definition handleInput :: "string \<Rightarrow> InputState \<Rightarrow> GameRoom \<Rightarrow> GameRoom" where
  "handleInput a input s = s\<lparr>playerInputs := (playerInputs s)(a \<mapsto> input)\<rparr>"

text \<open>The body of a timer callback, and the firing of the pending timer \<open>h\<close>.\<close>

fun runCallback :: "callback \<Rightarrow> GameRoom \<Rightarrow> GameRoom" where
  "runCallback (ReloadDone a w) s =
    (case getPlayer a s of
       None \<Rightarrow> s
     | Some player \<Rightarrow>
        if isDead player then s
        else (modPlayer a (\<lambda>p. p\<lparr>isReloading := False, ammo := clipSize (WEAPON_STATS w)\<rparr>) s)
               \<lparr>reloadTimers := mapDelete a (reloadTimers s)\<rparr>)"
| "runCallback (SpawnProtectionOver a) s =
    (modPlayer a (\<lambda>p. p\<lparr>isInSpawn := False\<rparr>) s)
      \<lparr>spawnProtectionTimers := mapDelete a (spawnProtectionTimers s)\<rparr>"
| "runCallback RoomInfoBroadcast s = emit EvRoomUpdated s"

definition fireTimer :: "nat \<Rightarrow> GameRoom \<Rightarrow> GameRoom" where
  "fireTimer h s =
    (case map_of (pendingTimers s) h of
       None \<Rightarrow> s
     | Some cb \<Rightarrow> runCallback cb (clearTimeout h s))"

subsection \<open>Starting a match\<close>

definition newPlayer :: "nat \<Rightarrow> RoomPlayer \<Rightarrow> PlayerState" where
  "newPlayer playerIndex lobbyPlayer =
    (let arena = ARENAS CENTER;
         spawn = spawnPoints arena ! (playerIndex mod length (spawnPoints arena));
         movementStats = MOVEMENT_STATS (lobbyMovement lobbyPlayer)
     in \<lparr>pid = lobbyId lobbyPlayer, pname = lobbyName lobbyPlayer,
         posX = fst spawn, posY = snd spawn, posZ = DEFAULT_Z,
         velocityX = 0, velocityY = 0, velocityZ = 0, angle = 0,
         health = MAX_HEALTH, maxHealth = MAX_HEALTH,
         fuel = fuelCapacity movementStats, maxFuel = fuelCapacity movementStats,
         currentArena = CENTER, movement = lobbyMovement lobbyPlayer,
         weapon = lobbyWeapon lobbyPlayer, isInSpawn = False, isDead = False,
         kills = 0, deaths = 0,
         ammo = clipSize (WEAPON_STATS (lobbyWeapon lobbyPlayer)), isReloading = False\<rparr>)"

definition setPlayer :: "PlayerState \<Rightarrow> PlayerState list \<Rightarrow> PlayerState list" where
  "setPlayer p ps = (if pid p \<in> pid ` set ps
     then map (\<lambda>q. if pid q = pid p then p else q) ps else ps @ [p])"

definition initializePlayers :: "GameRoom \<Rightarrow> GameRoom" where
  "initializePlayers s =
    s\<lparr>players := fold (\<lambda>(playerIndex, lobbyPlayer). setPlayer (newPlayer playerIndex lobbyPlayer))
         (zip [0 ..< length (lobbyPlayers s)] (lobbyPlayers s)) (players s),
      obstacles := breakableObstacles (ARENAS CENTER)\<rparr>"

definition startGame :: "GameRoom \<Rightarrow> GameRoom" where
  "startGame s =
    (if gameStarted s \<or> inLoadoutPhase s then s
     else if \<not> list_all ready (lobbyPlayers s) then s
     else if length (lobbyPlayers s) < 2 then s
     else emit EvRoomUpdated (emit EvLoadoutPhase (initializePlayers
            (s\<lparr>inLoadoutPhase := True,
               lobbyPlayers := map (\<lambda>lp. lp\<lparr>loadoutReady := False\<rparr>) (lobbyPlayers s)\<rparr>))))"

definition startGameLoop :: "GameRoom \<Rightarrow> GameRoom" where
  "startGameLoop s = (fold grantSpawnProtection (map pid (players s)) s)\<lparr>gameLoop := True\<rparr>"

text \<open>
  The constructor's room, with a roster; and the room's operations as events. The lobby
  toggles and the countdown that separates \<^verbatim>\<open>startGame\<close> from \<^verbatim>\<open>startGameLoop\<close> are
  not modelled.
\<close>

definition newRoom :: "RoomPlayer list \<Rightarrow> GameRoom" where
  "newRoom roster = \<lparr>lobbyPlayers = roster, players = [], projectiles = [], obstacles = [],
     playerInputs = (\<lambda>_. None), gameStarted = False, inLoadoutPhase = False,
     gameLoop = False, tick = 0, projectileIdCounter = 0, lastShotTime = (\<lambda>_. None),
     reloadTimers = [], spawnProtectionTimers = [], countdownStarted = False,
     pendingTimers = [], nextTimer = 0, emitted = []\<rparr>"

datatype event =
    StartGame
  | StartGameLoop
  | Tick real "string \<Rightarrow> real"
  | Input string InputState
  | Respawn string
  | Reload string
  | Loadout string MovementType WeaponType
  | Timer nat
  | Leave string

fun step :: "event \<Rightarrow> GameRoom \<Rightarrow> GameRoom" where
  "step StartGame s = startGame s"
| "step StartGameLoop s = startGameLoop s"
| "step (Tick now rnd) s = gameTick now rnd s"
| "step (Input a input) s = handleInput a input s"
| "step (Respawn a) s = respawnPlayer a s"
| "step (Reload a) s = manualReload a s"
| "step (Loadout a mv wp) s = setPlayerLoadout a mv wp s"
| "step (Timer h) s = fireTimer h s"
| "step (Leave a) s = removePlayer a s"

definition run :: "event list \<Rightarrow> GameRoom \<Rightarrow> GameRoom" where
  "run evs s = fold step evs s"

section \<open>Auxiliary notions for the proofs\<close>

subsection \<open>Non-negative results of the ray test\<close>

definition js_nonneg :: "jsnum \<Rightarrow> bool" where
  "js_nonneg v = (case v of Fin r \<Rightarrow> 0 \<le> r | PosInf \<Rightarrow> True | _ \<Rightarrow> False)"

subsection \<open>What one tick may do to a player\<close>

text \<open>
  \<open>active\<close>: the player is alive and has an input record, so the tick updates it.
  \<open>noVitals\<close> forgets health, dead flag, deaths and kills: two players equal under
  \<open>noVitals\<close> agree on position, velocity, angle, fuel, ammo, reloading flag, loadout,
  arena and spawn protection.
  \<open>allowed s p p'\<close> bounds the change of one player in a small step of the tick from the
  room \<open>s\<close>: its movement and weapon state changes only if it is active; its health, dead
  flag and death count change only if it is neither dead nor protected; its kill count
  can only grow, and only if it is active or owns a live projectile.
  \<open>micro\<close> is one such small step of the room (or the end of the match, which clears
  \<^verbatim>\<open>players\<close>), \<open>evolves\<close> any number of them.
\<close>

definition active :: "GameRoom \<Rightarrow> PlayerState \<Rightarrow> bool" where
  "active s p = (\<not> isDead p \<and> playerInputs s (pid p) \<noteq> None)"

definition noVitals :: "PlayerState \<Rightarrow> PlayerState" where
  "noVitals p = p\<lparr>health := 0, isDead := False, deaths := 0, kills := 0\<rparr>"

definition vitalsOnly :: "PlayerState \<Rightarrow> PlayerState \<Rightarrow> bool" where
  "vitalsOnly p p' = (noVitals p' = noVitals p)"

definition allowed :: "GameRoom \<Rightarrow> PlayerState \<Rightarrow> PlayerState \<Rightarrow> bool" where
  "allowed s p p' =
    (pid p' = pid p \<and> isInSpawn p' = isInSpawn p
     \<and> (\<not> vitalsOnly p p' \<longrightarrow> active s p)
     \<and> ((health p' \<noteq> health p \<or> isDead p' \<noteq> isDead p \<or> deaths p' \<noteq> deaths p)
          \<longrightarrow> \<not> isDead p \<and> \<not> isInSpawn p)
     \<and> kills p \<le> kills p'
     \<and> (kills p' \<noteq> kills p \<longrightarrow> active s p \<or> pid p \<in> ownerId ` set (projectiles s)))"

definition micro :: "GameRoom \<Rightarrow> GameRoom \<Rightarrow> bool" where
  "micro s s' =
    (players s' = [] \<or>
     (playerInputs s' = playerInputs s
      \<and> list_all2 (allowed s) (players s) (players s')
      \<and> (\<forall>q \<in> set (projectiles s'). ownerId q \<in> ownerId ` set (projectiles s)
            \<or> (\<exists>p \<in> set (players s). pid p = ownerId q \<and> active s p))))"

definition evolves :: "GameRoom \<Rightarrow> GameRoom \<Rightarrow> bool" where
  "evolves = micro\<^sup>*\<^sup>*"

definition actor :: "string \<Rightarrow> GameRoom \<Rightarrow> bool" where
  "actor a s = (distinct (map pid (players s))
     \<and> (\<exists>p. getPlayer a s = Some p \<and> active s p))"

subsection \<open>The invariant of the search for the nearest player\<close>


subsection \<open>Example inputs\<close>

text \<open>
  A player as \<^verbatim>\<open>initializePlayers\<close> creates it from the default loadout (wings, rocket)
  at the first spawn point, the input record with every flag false, and a room in an
  active match with the given players and no obstacle left.
\<close>

definition exPlayer :: "string \<Rightarrow> PlayerState" where
  "exPlayer k = \<lparr>pid = k, pname = k, posX = 100, posY = 100, posZ = 20,
     velocityX = 0, velocityY = 0, velocityZ = 0, angle = 0, health = 100, maxHealth = 100,
     fuel = 0, maxFuel = 0, currentArena = CENTER, movement = WINGS, weapon = ROCKET,
     isInSpawn = False, isDead = False, kills = 0, deaths = 0, ammo = 4,
     isReloading = False\<rparr>"

definition idleInput :: InputState where
  "idleInput = \<lparr>up = False, down = False, left = False, right = False, jump = False,
     crouch = False, shooting = False, mouseAngle = 0, timestamp = 0, sequence = 0\<rparr>"

definition rosterOf :: "PlayerState \<Rightarrow> RoomPlayer" where
  "rosterOf p = \<lparr>lobbyId = pid p, lobbyName = pname p, ready = True, loadoutReady = True,
     lobbyMovement = movement p, lobbyWeapon = weapon p\<rparr>"

definition exRoom :: "PlayerState list \<Rightarrow> GameRoom" where
  "exRoom ps = (newRoom (map rosterOf ps))\<lparr>players := ps, gameStarted := True,
     inLoadoutPhase := True, gameLoop := True\<rparr>"

text \<open>A fire-jetpack player in mid-air with half its fuel.\<close>

definition exJet :: PlayerState where
  "exJet = (exPlayer ''a'')\<lparr>movement := FIRE_JETPACK, fuel := 50, maxFuel := 100,
     posZ := 50\<rparr>"

text \<open>
  A spawn-protected sniper \<open>a\<close> at \<open>(100, 100)\<close> whose latest input holds the shoot flag and
  aims along the x axis, and an unprotected player \<open>b\<close> at \<open>(300, 100)\<close> with full health.
\<close>

definition exSniper :: PlayerState where
  "exSniper = (exPlayer ''a'')\<lparr>isInSpawn := True, weapon := SNIPER, ammo := 1\<rparr>"

definition shootInput :: InputState where
  "shootInput = idleInput\<lparr>shooting := True\<rparr>"

definition exProtectedSniper :: GameRoom where
  "exProtectedSniper =
     handleInput ''a'' shootInput (exRoom [exSniper, (exPlayer ''b'')\<lparr>posX := 300\<rparr>])"

text \<open>
  A dead player \<open>a\<close> whose rocket, fired before it died, is one tick away from the
  player \<open>b\<close>, who has 50 health left.
\<close>

definition exDeadOwner :: GameRoom where
  "exDeadOwner = (exRoom [(exPlayer ''a'')\<lparr>isDead := True, health := 0, deaths := 1\<rparr>,
       (exPlayer ''b'')\<lparr>posX := 300, health := 50\<rparr>])
     \<lparr>projectiles := [\<lparr>projId = 0, ownerId = ''a'', projX = 288, projY = 100, projZ = 20,
        projAngle = 0, projSpeed = 12, projDamage = 50, projType = ROCKET,
        projArena = CENTER, createdAt = 0\<rparr>], projectileIdCounter := 1\<rparr>"

text \<open>
  Match point: \<open>a\<close> has 10 kills and \<open>b\<close> has 50 health left. And a player that died
  while reloading, its reload timer (handle 0) still pending.
\<close>

definition exMatchPoint :: GameRoom where
  "exMatchPoint = exRoom [(exPlayer ''a'')\<lparr>kills := 10\<rparr>, (exPlayer ''b'')\<lparr>health := 50\<rparr>]"

definition exDeadReloading :: GameRoom where
  "exDeadReloading =
     (exRoom [(exPlayer ''a'')\<lparr>isDead := True, health := 0, deaths := 1, ammo := 0,
                 isReloading := True\<rparr>])
       \<lparr>pendingTimers := [(0, ReloadDone ''a'' ROCKET)], reloadTimers := [(''a'', 0)],
        nextTimer := 1\<rparr>"


subsection \<open>Invariants of the room\<close>

text \<open>
  \<open>bounds\<close> are the ranges of altitude, health, ammunition and fuel of one player;
  \<open>playerOk\<close> adds that its maxima are those of its loadout. \<open>reloadOk\<close> ties every
  pending reload timer to the \<^verbatim>\<open>reloadTimers\<close> entry of a player that is reloading the
  weapon the timer will refill, and \<open>roomOk\<close> is the invariant of the room that the
  operations preserve: unique player ids, \<open>playerOk\<close> players, projectiles of
  non-negative damage, \<open>reloadOk\<close>, and no player outside a match.
\<close>

definition bounds :: "PlayerState \<Rightarrow> bool" where
  "bounds p = (MIN_Z \<le> posZ p \<and> posZ p \<le> MAX_Z \<and> 0 \<le> health p \<and> health p \<le> maxHealth p
     \<and> 0 \<le> ammo p \<and> ammo p \<le> clipSize (WEAPON_STATS (weapon p))
     \<and> 0 \<le> fuel p \<and> fuel p \<le> maxFuel p)"

definition playerOk :: "PlayerState \<Rightarrow> bool" where
  "playerOk p = (bounds p \<and> maxHealth p = MAX_HEALTH
     \<and> maxFuel p = fuelCapacity (MOVEMENT_STATS (movement p)))"

definition reloadOk :: "GameRoom \<Rightarrow> bool" where
  "reloadOk s = (\<forall>h a w. (h, ReloadDone a w) \<in> set (pendingTimers s) \<longrightarrow>
     map_of (reloadTimers s) a = Some h
     \<and> (\<exists>p. getPlayer a s = Some p \<and> weapon p = w \<and> isReloading p))"

definition roomOk :: "GameRoom \<Rightarrow> bool" where
  "roomOk s = (distinct (map pid (players s)) \<and> (\<forall>p \<in> set (players s). playerOk p)
     \<and> (\<forall>q \<in> set (projectiles s). 0 \<le> projDamage q) \<and> reloadOk s
     \<and> (\<not> inLoadoutPhase s \<longrightarrow> players s = []))"

text \<open>
  \<open>capOk\<close>: the projectile ids are unique and below the id counter (the list is the
  \<^verbatim>\<open>Map\<close> of the source, keyed by id), and no player owns more than
  \<^verbatim>\<open>MAX_PROJECTILES_PER_PLAYER\<close> of them.
\<close>

definition projKey :: "ProjectileState \<Rightarrow> nat \<times> string" where
  "projKey q = (projId q, ownerId q)"

definition capOk :: "GameRoom \<Rightarrow> bool" where
  "capOk s = (distinct (map projId (projectiles s))
     \<and> (\<forall>q \<in> set (projectiles s). projId q < projectileIdCounter s)
     \<and> (\<forall>a. length (filter (\<lambda>q. ownerId q = a) (projectiles s)) \<le> MAX_PROJECTILES_PER_PLAYER))"

subsection \<open>Example rooms for the invariants\<close>

text \<open>
  A lobby of two ready players (a fire jetpack and a sniper), the first of them as the
  start of the match creates and protects it, and a room in which \<open>a\<close> owns 50 live
  rockets and could otherwise shoot.
\<close>

definition exRoster :: "RoomPlayer list" where
  "exRoster = [rosterOf exJet, rosterOf ((exPlayer ''b'')\<lparr>weapon := SNIPER\<rparr>)]"

definition exSpawned :: PlayerState where
  "exSpawned = (newPlayer 0 (rosterOf exJet))\<lparr>isInSpawn := True\<rparr>"

definition exAtCap :: GameRoom where
  "exAtCap = (exRoom [exPlayer ''a'', (exPlayer ''b'')\<lparr>posX := 300\<rparr>])
     \<lparr>projectiles := map (\<lambda>n. \<lparr>projId = n, ownerId = ''a'', projX = 120, projY = 100,
          projZ = 20, projAngle = 0, projSpeed = 12, projDamage = 50, projType = ROCKET,
          projArena = CENTER, createdAt = 4000\<rparr>) [0 ..< 50],
       projectileIdCounter := 50\<rparr>"

subsection \<open>Further examples and notions for the claims\<close>


text \<open>
  \<open>stillDead a p s\<close>: in the room \<open>s\<close> the Combatant \<open>a\<close> is dead, with the ammo count
  and the reloading flag of \<open>p\<close>. \<open>resets a ev\<close>: the operation \<open>ev\<close> is the respawn, a
  loadout change or the departure of \<open>a\<close>, or the start of a new match.
\<close>

definition stillDead :: "string \<Rightarrow> PlayerState \<Rightarrow> GameRoom \<Rightarrow> bool" where
  "stillDead a p s = (case getPlayer a s of None \<Rightarrow> False
     | Some p' \<Rightarrow> isDead p' \<and> ammo p' = ammo p \<and> isReloading p' = isReloading p)"

fun resets :: "string \<Rightarrow> event \<Rightarrow> bool" where
  "resets a StartGame = True"
| "resets a (Respawn b) = (b = a)"
| "resets a (Loadout b mv wp) = (b = a)"
| "resets a (Leave b) = (b = a)"
| "resets a ev = False"

section \<open>Lemmas\<close>

lemma js_gt_zero_nonneg: "js_gt v (Fin 0) \<Longrightarrow> js_nonneg v"
  by (cases v) (auto simp: js_nonneg_def)

lemma js_not_lt_zero_nonneg: "\<not> js_lt v (Fin 0) \<Longrightarrow> v \<noteq> NaN \<Longrightarrow> js_nonneg v"
  by (cases v) (auto simp: js_nonneg_def js_lt_def)

lemma slab_inside:
  assumes "a < 0" "0 < b"
  shows "js_gt (Fin 0) (if js_gt (js_times a (invDir d)) (js_times b (invDir d))
            then js_times b (invDir d) else js_times a (invDir d))"
    and "js_gt (if js_gt (js_times a (invDir d)) (js_times b (invDir d))
            then js_times a (invDir d) else js_times b (invDir d)) (Fin 0)"
    and "d \<noteq> 0 \<Longrightarrow> \<exists>r. (if js_gt (js_times a (invDir d)) (js_times b (invDir d))
            then js_times a (invDir d) else js_times b (invDir d)) = Fin r"
proof -
  consider "d = 0" | "0 < d" | "d < 0" by linarith
  then have "(d = 0 \<and> js_times a (invDir d) = NegInf \<and> js_times b (invDir d) = PosInf)
      \<or> (\<exists>u v. js_times a (invDir d) = Fin u \<and> js_times b (invDir d) = Fin v \<and> d \<noteq> 0
            \<and> ((u < 0 \<and> 0 < v) \<or> (v < 0 \<and> 0 < u)))"
  proof cases
    case 1
    then show ?thesis using assms by (simp add: invDir_def)
  next
    case 2
    then have "a / d < 0" "0 < b / d"
      using assms by (simp_all add: divide_neg_pos)
    then show ?thesis using 2 by (simp add: invDir_def)
  next
    case 3
    then have "0 < a / d" "b / d < 0"
      using assms by (simp_all add: divide_neg_neg divide_pos_neg)
    then show ?thesis using 3 by (simp add: invDir_def)
  qed
  then show "js_gt (Fin 0) (if js_gt (js_times a (invDir d)) (js_times b (invDir d))
            then js_times b (invDir d) else js_times a (invDir d))"
    and "js_gt (if js_gt (js_times a (invDir d)) (js_times b (invDir d))
            then js_times a (invDir d) else js_times b (invDir d)) (Fin 0)"
    and "d \<noteq> 0 \<Longrightarrow> \<exists>r. (if js_gt (js_times a (invDir d)) (js_times b (invDir d))
            then js_times a (invDir d) else js_times b (invDir d)) = Fin r"
    by auto
qed

lemma js_max_neg: "js_gt (Fin 0) a \<Longrightarrow> js_gt (Fin 0) b \<Longrightarrow> \<not> js_gt (js_max a b) (Fin 0)"
  by (cases a; cases b) (auto simp: js_max_def)

lemma js_min_pos:
  "js_gt a (Fin 0) \<Longrightarrow> js_gt b (Fin 0) \<Longrightarrow> (\<exists>r. a = Fin r) \<or> (\<exists>r. b = Fin r) \<Longrightarrow>
   \<exists>r. js_min a b = Fin r \<and> 0 < r"
  by (cases a; cases b) (auto simp: js_min_def)

lemma js_enter_exit:
  "js_gt (Fin 0) e \<Longrightarrow> x = Fin r \<Longrightarrow> 0 < r \<Longrightarrow> \<not> js_gt e x \<and> \<not> js_lt x (Fin 0)"
  by (cases e) (auto simp: js_lt_def)

lemma js_max_neg2: "js_gt (Fin 0) a \<Longrightarrow> js_gt (Fin 0) b \<Longrightarrow> js_gt (Fin 0) (js_max a b)"
  by (cases a; cases b) (auto simp: js_max_def)

lemma fuel_movePlayer:
  "fuel (movePlayer p inp) = snd (fuelStep (MOVEMENT_STATS (movement p)) (posZ p \<le> 5) (jump inp) (fuel p))"
  by (simp add: movePlayer_def Let_def)

lemma vz_movePlayer:
  "velocityZ (movePlayer p inp) = 
    verticalVelocity (MOVEMENT_STATS (movement p)) (movement p)
      (fst (fuelStep (MOVEMENT_STATS (movement p)) (posZ p \<le> 5) (jump inp) (fuel p))) (crouch inp)
      ((velocityX p + (fst (targetVelocity (MOVEMENT_STATS (movement p)) inp) - velocityX p) * acceleration (MOVEMENT_STATS (movement p))) * friction (MOVEMENT_STATS (movement p)))
      ((velocityY p + (snd (targetVelocity (MOVEMENT_STATS (movement p)) inp) - velocityY p) * acceleration (MOVEMENT_STATS (movement p))) * friction (MOVEMENT_STATS (movement p)))"
  by (simp add: movePlayer_def Let_def)

lemma fuelStep_fst:
  "fuelCapacity st > 0 \<Longrightarrow> fst (fuelStep st g j f) = (j \<and> f > 0)"
  by (auto simp: fuelStep_def Let_def)

lemma fuelStep_snd:
  "fuelCapacity st > 0 \<Longrightarrow> snd (fuelStep st g j f) =
     (if j \<and> f > 0 then max 0 (f - fuelDrain st)
      else if g then min (fuelCapacity st) (f + fuelRegen st) else f)"
  by (auto simp: fuelStep_def Let_def)

lemma rates_nonneg:
  "0 \<le> zClimbRate (MOVEMENT_STATS m)" "0 \<le> zFallRate (MOVEMENT_STATS m)"
  by (cases m; simp)+

lemma emit_fields [simp]:
  "lobbyPlayers (emit e s) = lobbyPlayers s"
  "players (emit e s) = players s"
  "projectiles (emit e s) = projectiles s"
  "obstacles (emit e s) = obstacles s"
  "playerInputs (emit e s) = playerInputs s"
  "gameStarted (emit e s) = gameStarted s"
  "inLoadoutPhase (emit e s) = inLoadoutPhase s"
  "gameLoop (emit e s) = gameLoop s"
  "tick (emit e s) = tick s"
  "projectileIdCounter (emit e s) = projectileIdCounter s"
  "lastShotTime (emit e s) = lastShotTime s"
  "reloadTimers (emit e s) = reloadTimers s"
  "spawnProtectionTimers (emit e s) = spawnProtectionTimers s"
  "countdownStarted (emit e s) = countdownStarted s"
  "pendingTimers (emit e s) = pendingTimers s"
  "nextTimer (emit e s) = nextTimer s"
  "emitted (emit e s) = emitted s @ [e]"
  by (simp_all add: emit_def)

lemma setTimeout_fields [simp]:
  "lobbyPlayers (setTimeout cb s) = lobbyPlayers s"
  "players (setTimeout cb s) = players s"
  "projectiles (setTimeout cb s) = projectiles s"
  "obstacles (setTimeout cb s) = obstacles s"
  "playerInputs (setTimeout cb s) = playerInputs s"
  "gameStarted (setTimeout cb s) = gameStarted s"
  "inLoadoutPhase (setTimeout cb s) = inLoadoutPhase s"
  "gameLoop (setTimeout cb s) = gameLoop s"
  "tick (setTimeout cb s) = tick s"
  "projectileIdCounter (setTimeout cb s) = projectileIdCounter s"
  "lastShotTime (setTimeout cb s) = lastShotTime s"
  "reloadTimers (setTimeout cb s) = reloadTimers s"
  "spawnProtectionTimers (setTimeout cb s) = spawnProtectionTimers s"
  "countdownStarted (setTimeout cb s) = countdownStarted s"
  "pendingTimers (setTimeout cb s) = pendingTimers s @ [(nextTimer s, cb)]"
  "nextTimer (setTimeout cb s) = Suc (nextTimer s)"
  "emitted (setTimeout cb s) = emitted s"
  by (simp_all add: setTimeout_def)

lemma clearTimeout_fields [simp]:
  "lobbyPlayers (clearTimeout h s) = lobbyPlayers s"
  "players (clearTimeout h s) = players s"
  "projectiles (clearTimeout h s) = projectiles s"
  "obstacles (clearTimeout h s) = obstacles s"
  "playerInputs (clearTimeout h s) = playerInputs s"
  "gameStarted (clearTimeout h s) = gameStarted s"
  "inLoadoutPhase (clearTimeout h s) = inLoadoutPhase s"
  "gameLoop (clearTimeout h s) = gameLoop s"
  "tick (clearTimeout h s) = tick s"
  "projectileIdCounter (clearTimeout h s) = projectileIdCounter s"
  "lastShotTime (clearTimeout h s) = lastShotTime s"
  "reloadTimers (clearTimeout h s) = reloadTimers s"
  "spawnProtectionTimers (clearTimeout h s) = spawnProtectionTimers s"
  "countdownStarted (clearTimeout h s) = countdownStarted s"
  "pendingTimers (clearTimeout h s) = filter (\<lambda>e. fst e \<noteq> h) (pendingTimers s)"
  "nextTimer (clearTimeout h s) = nextTimer s"
  "emitted (clearTimeout h s) = emitted s"
  by (simp_all add: clearTimeout_def)

lemma modPlayer_fields [simp]:
  "lobbyPlayers (modPlayer a f s) = lobbyPlayers s"
  "players (modPlayer a f s) = map (\<lambda>p. if pid p = a then f p else p) (players s)"
  "projectiles (modPlayer a f s) = projectiles s"
  "obstacles (modPlayer a f s) = obstacles s"
  "playerInputs (modPlayer a f s) = playerInputs s"
  "gameStarted (modPlayer a f s) = gameStarted s"
  "inLoadoutPhase (modPlayer a f s) = inLoadoutPhase s"
  "gameLoop (modPlayer a f s) = gameLoop s"
  "tick (modPlayer a f s) = tick s"
  "projectileIdCounter (modPlayer a f s) = projectileIdCounter s"
  "lastShotTime (modPlayer a f s) = lastShotTime s"
  "reloadTimers (modPlayer a f s) = reloadTimers s"
  "spawnProtectionTimers (modPlayer a f s) = spawnProtectionTimers s"
  "countdownStarted (modPlayer a f s) = countdownStarted s"
  "pendingTimers (modPlayer a f s) = pendingTimers s"
  "nextTimer (modPlayer a f s) = nextTimer s"
  "emitted (modPlayer a f s) = emitted s"
  by (simp_all add: modPlayer_def)

lemma damageObstacle_fields [simp]:
  "lobbyPlayers (damageObstacle k d s) = lobbyPlayers s"
  "players (damageObstacle k d s) = players s"
  "projectiles (damageObstacle k d s) = projectiles s"
  "playerInputs (damageObstacle k d s) = playerInputs s"
  "gameStarted (damageObstacle k d s) = gameStarted s"
  "inLoadoutPhase (damageObstacle k d s) = inLoadoutPhase s"
  "gameLoop (damageObstacle k d s) = gameLoop s"
  "tick (damageObstacle k d s) = tick s"
  "projectileIdCounter (damageObstacle k d s) = projectileIdCounter s"
  "lastShotTime (damageObstacle k d s) = lastShotTime s"
  "reloadTimers (damageObstacle k d s) = reloadTimers s"
  "spawnProtectionTimers (damageObstacle k d s) = spawnProtectionTimers s"
  "countdownStarted (damageObstacle k d s) = countdownStarted s"
  "pendingTimers (damageObstacle k d s) = pendingTimers s"
  "nextTimer (damageObstacle k d s) = nextTimer s"
  "emitted (damageObstacle k d s) = emitted s"
  by (simp_all add: damageObstacle_def)

lemma deleteProjectile_fields [simp]:
  "lobbyPlayers (deleteProjectile k s) = lobbyPlayers s"
  "players (deleteProjectile k s) = players s"
  "projectiles (deleteProjectile k s) = filter (\<lambda>q. projId q \<noteq> k) (projectiles s)"
  "obstacles (deleteProjectile k s) = obstacles s"
  "playerInputs (deleteProjectile k s) = playerInputs s"
  "gameStarted (deleteProjectile k s) = gameStarted s"
  "inLoadoutPhase (deleteProjectile k s) = inLoadoutPhase s"
  "gameLoop (deleteProjectile k s) = gameLoop s"
  "tick (deleteProjectile k s) = tick s"
  "projectileIdCounter (deleteProjectile k s) = projectileIdCounter s"
  "lastShotTime (deleteProjectile k s) = lastShotTime s"
  "reloadTimers (deleteProjectile k s) = reloadTimers s"
  "spawnProtectionTimers (deleteProjectile k s) = spawnProtectionTimers s"
  "countdownStarted (deleteProjectile k s) = countdownStarted s"
  "pendingTimers (deleteProjectile k s) = pendingTimers s"
  "nextTimer (deleteProjectile k s) = nextTimer s"
  "emitted (deleteProjectile k s) = emitted s"
  by (simp_all add: deleteProjectile_def)

lemma getPlayer_cong: "players s' = players s \<Longrightarrow> getPlayer a s' = getPlayer a s"
  by (simp add: getPlayer_def)

lemma getPlayer_SomeD: "getPlayer a s = Some p \<Longrightarrow> p \<in> set (players s) \<and> pid p = a"
  unfolding getPlayer_def by (auto simp: find_Some_iff)

lemma find_pid_distinct:
  "distinct (map pid ps) \<Longrightarrow> p \<in> set ps \<Longrightarrow> find (\<lambda>q. pid q = pid p) ps = Some p"
  by (induction ps) (auto simp: image_iff)

lemma getPlayer_distinct:
  "distinct (map pid (players s)) \<Longrightarrow> p \<in> set (players s) \<Longrightarrow> getPlayer (pid p) s = Some p"
  unfolding getPlayer_def by (rule find_pid_distinct)

lemma getPlayer_unique:
  "distinct (map pid (players s)) \<Longrightarrow> getPlayer a s = Some p \<Longrightarrow> q \<in> set (players s) \<Longrightarrow>
   pid q = a \<Longrightarrow> q = p"
proof -
  assume d: "distinct (map pid (players s))" and g: "getPlayer a s = Some p"
    and q: "q \<in> set (players s)" and a: "pid q = a"
  have "getPlayer (pid q) s = Some q" by (rule getPlayer_distinct[OF d q])
  with g a show "q = p" by (simp only: option.inject)
qed

lemma find_map_pid:
  "(\<And>q. pid (g q) = pid q) \<Longrightarrow>
   find (\<lambda>q. pid q = k) (map g ps) = map_option g (find (\<lambda>q. pid q = k) ps)"
  by (induction ps) auto

lemma find_pid_SomeD: "find (\<lambda>q. pid q = k) ps = Some x \<Longrightarrow> pid x = k \<and> x \<in> set ps"
  by (induction ps) (auto split: if_splits)

lemma map_pid_map: "(\<And>q. pid (g q) = pid q) \<Longrightarrow> map pid (map g ps) = map pid ps"
  by (induction ps) simp_all

lemma getPlayer_modPlayer:
  assumes f: "\<And>q. pid (f q) = pid q"
  shows "getPlayer k (modPlayer a f s)
     = (if k = a then map_option f (getPlayer k s) else getPlayer k s)"
proof -
  let ?g = "\<lambda>p. if pid p = a then f p else p"
  have g: "pid (?g q) = pid q" for q by (simp add: f)
  have "find (\<lambda>q. pid q = k) (map ?g (players s)) = map_option ?g (find (\<lambda>q. pid q = k) (players s))"
    by (rule find_map_pid) (rule g)
  then have 1: "getPlayer k (modPlayer a f s) = map_option ?g (getPlayer k s)"
    by (simp only: getPlayer_def modPlayer_fields)
  show ?thesis
  proof (cases "getPlayer k s")
    case None
    then show ?thesis using 1 by (simp only: option.map if_cancel)
  next
    case (Some x)
    then have "find (\<lambda>q. pid q = k) (players s) = Some x" by (simp add: getPlayer_def)
    then have "pid x = k" by (rule find_pid_SomeD[THEN conjunct1])
    then have "?g x = (if k = a then f x else x)" by simp
    then show ?thesis unfolding 1 Some by simp
  qed
qed

lemma allowed_refl [simp]: "allowed s p p"
  by (simp add: allowed_def vitalsOnly_def noVitals_def)

lemma micro_env:
  assumes "players s' = players s" "playerInputs s' = playerInputs s"
    "\<forall>q \<in> set (projectiles s'). ownerId q \<in> ownerId ` set (projectiles s)
            \<or> (\<exists>p \<in> set (players s). pid p = ownerId q \<and> active s p)"
  shows "micro s s'"
  using assms by (simp add: micro_def list_all2_same)

lemma micro_act:
  assumes "actor a s"
    and f: "\<And>q. pid (f q) = pid q \<and> isInSpawn (f q) = isInSpawn q \<and> health (f q) = health q
        \<and> isDead (f q) = isDead q \<and> deaths (f q) = deaths q \<and> kills (f q) = kills q"
    and "players s' = map (\<lambda>q. if pid q = a then f q else q) (players s)"
    and "playerInputs s' = playerInputs s"
    and "\<forall>q \<in> set (projectiles s'). q \<in> set (projectiles s) \<or> ownerId q = a"
  shows "micro s s'"
proof -
  from assms(1) obtain p where d: "distinct (map pid (players s))"
    and p: "getPlayer a s = Some p" "active s p" by (auto simp: actor_def)
  have "allowed s q (if pid q = a then f q else q)" if "q \<in> set (players s)" for q
  proof (cases "pid q = a")
    case True
    have qp: "q = p" by (rule getPlayer_unique[OF d p(1) that True])
    have "allowed s p (f p)" using p(2) f[of p] by (simp add: allowed_def)
    then show ?thesis using True unfolding qp by simp
  next
    case False
    then show ?thesis by simp
  qed
  then have "list_all2 (allowed s) (players s) (players s')"
    by (simp add: assms(3) list_all2_map2 list_all2_same)
  moreover have "\<forall>q \<in> set (projectiles s'). ownerId q \<in> ownerId ` set (projectiles s)
            \<or> (\<exists>p \<in> set (players s). pid p = ownerId q \<and> active s p)"
  proof
    fix q assume q: "q \<in> set (projectiles s')"
    from assms(5) q have "q \<in> set (projectiles s) \<or> ownerId q = a" by (rule bspec)
    then show "ownerId q \<in> ownerId ` set (projectiles s)
            \<or> (\<exists>p \<in> set (players s). pid p = ownerId q \<and> active s p)"
    proof
      assume "q \<in> set (projectiles s)"
      then show ?thesis by (simp add: image_iff) blast
    next
      assume "ownerId q = a"
      then show ?thesis using getPlayer_SomeD[OF p(1)] p(2) by blast
    qed
  qed
  ultimately show ?thesis using assms(4) unfolding micro_def by blast
qed

lemma actor_act:
  assumes "actor a s"
    and f: "\<And>q. pid (f q) = pid q \<and> isDead (f q) = isDead q"
    and "players s' = map (\<lambda>q. if pid q = a then f q else q) (players s)"
    and "playerInputs s' = playerInputs s"
  shows "actor a s'"
proof -
  from assms(1) obtain p where d: "distinct (map pid (players s))"
    and p: "getPlayer a s = Some p" "active s p" by (auto simp: actor_def)
  have "map pid (players s') = map pid (players s)"
    unfolding assms(3) by (rule map_pid_map) (simp add: f)
  moreover have "getPlayer a s' = Some (f p)"
  proof -
    have "getPlayer a (modPlayer a f s) = Some (f p)"
      using getPlayer_modPlayer[of f a a s] p(1) f by simp
    then show ?thesis by (simp add: getPlayer_def assms(3))
  qed
  moreover have "active s' (f p)" using p(2) f[of p] assms(4) by (simp add: active_def)
  ultimately show ?thesis using d by (simp add: actor_def)
qed

lemma actor_env:
  "actor a s \<Longrightarrow> players s' = players s \<Longrightarrow> playerInputs s' = playerInputs s \<Longrightarrow> actor a s'"
  by (simp add: actor_def getPlayer_def active_def)

lemma endGame_fields [simp]:
  "players (endGame w s) = []" "projectiles (endGame w s) = []" "obstacles (endGame w s) = []"
  "gameLoop (endGame w s) = False" "gameStarted (endGame w s) = False"
  "inLoadoutPhase (endGame w s) = False"
  "reloadTimers (endGame w s) = []" "spawnProtectionTimers (endGame w s) = []"
  "emitted (endGame w s) = emitted s @ [EvEnded w (map (\<lambda>p. (pid p, kills p, deaths p)) (players s))]"
  by (simp_all add: endGame_def Let_def setTimeout_def emit_def)

lemma micro_ended: "players s' = [] \<Longrightarrow> micro s s'"
  by (simp add: micro_def)

lemma micro_map:
  assumes "\<And>q. q \<in> set (players s) \<Longrightarrow> allowed s q (g q)"
    and "players s' = map g (players s)" "playerInputs s' = playerInputs s"
    and "projectiles s' = projectiles s"
  shows "micro s s'"
proof -
  have "list_all2 (allowed s) (players s) (players s')"
    unfolding assms(2) by (simp add: list_all2_map2 list_all2_same assms(1))
  then show ?thesis unfolding micro_def using assms(3,4) by auto
qed

lemma damagePlayer_nonlethal:
  "getPlayer t s = Some pt \<Longrightarrow> \<not> health pt - dmg \<le> 0 \<Longrightarrow>
   damagePlayer t dmg src s = modPlayer t (\<lambda>p. p\<lparr>health := health p - dmg\<rparr>) s"
  by (simp add: damagePlayer_def)

lemma damagePlayer_lethal:
  assumes "getPlayer t s = Some pt" "health pt - dmg \<le> 0"
  shows "damagePlayer t dmg src s =
      emit (EvKill src t) (modPlayer src (\<lambda>p. p\<lparr>kills := kills p + 1\<rparr>)
                 (modPlayer t (\<lambda>p. p\<lparr>health := 0, isDead := True, deaths := deaths p + 1\<rparr>) s))
    \<or> players (damagePlayer t dmg src s) = []"
proof -
  let ?s3 = "emit (EvKill src t) (modPlayer src (\<lambda>p. p\<lparr>kills := kills p + 1\<rparr>)
                 (modPlayer t (\<lambda>p. p\<lparr>health := 0, isDead := True, deaths := deaths p + 1\<rparr>) s))"
  have "damagePlayer t dmg src s = (case getPlayer src ?s3 of
                None \<Rightarrow> ?s3
              | Some source \<Rightarrow> if kills source \<ge> KILL_LIMIT then endGame (pid source) ?s3 else ?s3)"
    using assms by (simp add: damagePlayer_def Let_def)
  then have *: "damagePlayer t dmg src s = ?s3
      \<or> (\<exists>w. damagePlayer t dmg src s = endGame w ?s3)"
    by (cases "getPlayer src ?s3") (auto simp only: option.case split: if_splits)
  show ?thesis
  proof (rule disjE[OF *])
    assume "damagePlayer t dmg src s = ?s3"
    then show ?thesis by (rule disjI1)
  next
    assume "\<exists>w. damagePlayer t dmg src s = endGame w ?s3"
    then obtain w where "damagePlayer t dmg src s = endGame w ?s3" ..
    then have "players (damagePlayer t dmg src s) = []" by (simp only: endGame_fields)
    then show ?thesis by (rule disjI2)
  qed
qed

lemma allowed_hurt:
  "\<not> isDead q \<and> \<not> isInSpawn q \<Longrightarrow> allowed s q (q\<lparr>health := h\<rparr>)"
  by (simp add: allowed_def vitalsOnly_def noVitals_def)

lemma allowed_killed:
  "\<not> isDead q \<and> \<not> isInSpawn q \<Longrightarrow>
   allowed s q (q\<lparr>health := h, isDead := b, deaths := n\<rparr>)"
  by (simp add: allowed_def vitalsOnly_def noVitals_def)

lemma allowed_kill:
  "active s q \<or> pid q \<in> ownerId ` set (projectiles s) \<Longrightarrow>
   allowed s q (q\<lparr>kills := kills q + 1\<rparr>)"
  by (simp add: allowed_def vitalsOnly_def noVitals_def)

lemma allowed_killed_kill:
  "\<not> isDead q \<and> \<not> isInSpawn q \<Longrightarrow> active s q \<or> pid q \<in> ownerId ` set (projectiles s) \<Longrightarrow>
   allowed s q (q\<lparr>health := h, isDead := b, deaths := n, kills := kills q + 1\<rparr>)"
  by (simp add: allowed_def vitalsOnly_def noVitals_def)

lemma micro_damagePlayer:
  assumes d: "distinct (map pid (players s))"
    and t: "getPlayer t s = Some pt" "\<not> isDead pt" "\<not> isInSpawn pt"
    and src: "\<And>ps. getPlayer src s = Some ps \<Longrightarrow>
               active s ps \<or> src \<in> ownerId ` set (projectiles s)"
  shows "micro s (damagePlayer t dmg src s)"
proof -
  have tq: "\<not> isDead q \<and> \<not> isInSpawn q" if "q \<in> set (players s)" "pid q = t" for q
  proof -
    have qp: "q = pt" by (rule getPlayer_unique[OF d t(1) that])
    show ?thesis unfolding qp using t(2,3) by blast
  qed
  have sq: "active s q \<or> pid q \<in> ownerId ` set (projectiles s)"
    if "q \<in> set (players s)" "pid q = src" for q
  proof -
    have "getPlayer (pid q) s = Some q" by (rule getPlayer_distinct[OF d that(1)])
    then have "getPlayer src s = Some q" by (simp only: that(2))
    from src[OF this] show ?thesis by (simp only: that(2))
  qed
  show ?thesis
  proof (cases "health pt - dmg \<le> 0")
    case False
    let ?g = "\<lambda>p. if pid p = t then p\<lparr>health := health p - dmg\<rparr> else p"
    have al: "allowed s q (?g q)" if "q \<in> set (players s)" for q
      using tq[OF that] allowed_hurt[of q s] by (cases "pid q = t") simp_all
    show ?thesis unfolding damagePlayer_nonlethal[OF t(1) False]
      by (rule micro_map[where g="?g", OF al]) simp_all
  next
    case True
    let ?gd = "\<lambda>p. if pid p = t then p\<lparr>health := 0, isDead := True, deaths := deaths p + 1\<rparr> else p"
    let ?gk = "\<lambda>p. if pid p = src then p\<lparr>kills := kills p + 1\<rparr> else p"
    let ?s3 = "emit (EvKill src t) (modPlayer src (\<lambda>p. p\<lparr>kills := kills p + 1\<rparr>)
                 (modPlayer t (\<lambda>p. p\<lparr>health := 0, isDead := True, deaths := deaths p + 1\<rparr>) s))"
    have al: "allowed s q (?gk (?gd q))" if "q \<in> set (players s)" for q
    proof (cases "pid q = t"; cases "pid q = src")
      assume a: "pid q = t" "pid q = src"
      then show ?thesis using allowed_killed_kill[OF tq[OF that a(1)] sq[OF that a(2)]] by simp
    next
      assume a: "pid q = t" "pid q \<noteq> src"
      then show ?thesis using allowed_killed[OF tq[OF that a(1)]] by simp
    next
      assume a: "pid q \<noteq> t" "pid q = src"
      then show ?thesis using allowed_kill[OF sq[OF that a(2)]] by simp
    next
      assume a: "pid q \<noteq> t" "pid q \<noteq> src"
      then show ?thesis by simp
    qed
    have p3: "players ?s3 = map (\<lambda>q. ?gk (?gd q)) (players s)"
      by (simp add: o_def)
    have m3: "micro s ?s3"
      by (rule micro_map[where g="\<lambda>q. ?gk (?gd q)", OF al p3]) simp_all
    from damagePlayer_lethal[OF t(1) True, of src] show ?thesis
    proof
      assume e: "damagePlayer t dmg src s = ?s3"
      show ?thesis unfolding e by (rule m3)
    next
      assume "players (damagePlayer t dmg src s) = []"
      then show ?thesis by (rule micro_ended)
    qed
  qed
qed

lemma evolves_refl [simp]: "evolves s s"
  by (simp add: evolves_def)

lemma evolves_trans: "evolves s s' \<Longrightarrow> evolves s' s'' \<Longrightarrow> evolves s s''"
  by (simp add: evolves_def)

lemma micro_evolves: "micro s s' \<Longrightarrow> evolves s s'"
  by (simp add: evolves_def)

lemma evolves_step: "evolves s s' \<Longrightarrow> micro s' s'' \<Longrightarrow> evolves s s''"
  by (simp add: evolves_def)

lemma micro_ids:
  "micro s s' \<Longrightarrow> players s' = [] \<or> map pid (players s') = map pid (players s)"
proof -
  have "list_all2 (allowed s) ps ps' \<Longrightarrow> map pid ps' = map pid ps" for ps ps'
    by (induction rule: list_all2_induct) (simp_all add: allowed_def)
  then show "micro s s' \<Longrightarrow> players s' = [] \<or> map pid (players s') = map pid (players s)"
    unfolding micro_def by blast
qed

lemma micro_distinct:
  "micro s s' \<Longrightarrow> distinct (map pid (players s)) \<Longrightarrow> distinct (map pid (players s'))"
  using micro_ids[of s s'] by auto

lemma evolves_distinct:
  "evolves s s' \<Longrightarrow> distinct (map pid (players s)) \<Longrightarrow> distinct (map pid (players s'))"
  unfolding evolves_def by (induction rule: rtranclp_induct) (auto dest: micro_distinct)

lemma evolves_fold:
  assumes "\<And>x s. distinct (map pid (players s)) \<Longrightarrow> evolves s (f x s)"
  shows "distinct (map pid (players s)) \<Longrightarrow> evolves s (fold f xs s)"
proof (induction xs arbitrary: s)
  case Nil
  then show ?case by simp
next
  case (Cons x xs)
  have 1: "evolves s (f x s)" by (rule assms[OF Cons.prems])
  have "evolves (f x s) (fold f xs (f x s))"
    by (rule Cons.IH[OF evolves_distinct[OF 1 Cons.prems]])
  with 1 show ?case by (simp add: evolves_trans)
qed

lemma startReload_players:
  "players (startReload a s) = map (\<lambda>q. if pid q = a then q\<lparr>isReloading := True\<rparr> else q) (players s)"
proof (cases "getPlayer a s")
  case None
  have "pid q \<noteq> a" if "q \<in> set (players s)" for q
    using None that unfolding getPlayer_def find_None_iff by blast
  then have "map (\<lambda>q. if pid q = a then q\<lparr>isReloading := True\<rparr> else q) (players s) = players s"
    by (simp add: map_idI)
  then show ?thesis using None by (simp add: startReload_def)
next
  case (Some p)
  then show ?thesis by (simp add: startReload_def Let_def)
qed

lemma startReload_fields [simp]:
  "playerInputs (startReload a s) = playerInputs s"
  "projectiles (startReload a s) = projectiles s"
  "obstacles (startReload a s) = obstacles s"
  "gameLoop (startReload a s) = gameLoop s"
  "emitted (startReload a s) = emitted s"
  by (simp_all add: startReload_def Let_def split: option.split)

lemma startReload_micro: "actor a s \<Longrightarrow> micro s (startReload a s)"
  by (rule micro_act[where f="\<lambda>q. q\<lparr>isReloading := True\<rparr>" and a=a])
     (simp_all add: startReload_players)

lemma startReload_actor: "actor a s \<Longrightarrow> actor a (startReload a s)"
  by (rule actor_act[where f="\<lambda>q. q\<lparr>isReloading := True\<rparr>" and s=s])
     (simp_all add: startReload_players)

lemma playerHit_fold_eligible:
  assumes "set ps \<subseteq> set every"
    and "fst acc = None \<or> (\<exists>target \<in> set every. fst acc = Some (pid target) \<and> hitscanEligible pl target)"
  shows "fst (fold (playerHit pl sx sy dx dy) ps acc) = None
     \<or> (\<exists>target \<in> set every. fst (fold (playerHit pl sx sy dx dy) ps acc) = Some (pid target)
           \<and> hitscanEligible pl target)"
  using assms
proof (induction ps arbitrary: acc)
  case Nil
  then show ?case by simp
next
  case (Cons x xs)
  have "fst (playerHit pl sx sy dx dy x acc) = None
     \<or> (\<exists>target \<in> set every. fst (playerHit pl sx sy dx dy x acc) = Some (pid target)
           \<and> hitscanEligible pl target)"
    using Cons.prems by (auto simp: playerHit_def split: option.splits)
  moreover have "set xs \<subseteq> set every" using Cons.prems(1) by simp
  ultimately show ?case using Cons.IH[of "playerHit pl sx sy dx dy x acc"] by simp
qed

lemma nearestPlayer_eligible:
  "fst (nearestPlayer pl ang d s) = Some t \<Longrightarrow>
   \<exists>target \<in> set (players s). pid target = t \<and> hitscanEligible pl target"
  using playerHit_fold_eligible[of "players s" "players s" "(None, d)" pl "posX pl" "posY pl" "cos ang" "sin ang"]
  by (auto simp: nearestPlayer_def)

lemma handleHitscan_evolves:
  assumes "actor a s"
  shows "evolves s (handleHitscan a ang dmg rng s)"
proof -
  from assms obtain player where d: "distinct (map pid (players s))"
    and p: "getPlayer a s = Some player" "active s player" by (auto simp: actor_def)
  define cod where "cod = fst (nearestObstacle player ang rng s)"
  define hb where "hb = snd (nearestObstacle player ang rng s)"
  define ch where "ch = fst (nearestPlayer player ang cod s)"
  define ed where "ed = (if ch \<noteq> None then snd (nearestPlayer player ang cod s) else cod)"
  define s1 where "s1 = emit (EvHitscan a (posX player) (posY player)
                    (posX player + cos ang * ed) (posY player + sin ang * ed)) s"
  have eq: "handleHitscan a ang dmg rng s = (case ch of
              Some targetId \<Rightarrow> emit (EvHit targetId dmg a) (damagePlayer targetId dmg a s1)
            | None \<Rightarrow>
               (case hb of
                  None \<Rightarrow> s1
                | Some obsKey \<Rightarrow> if obsKey = [] then s1 else damageObstacle obsKey dmg s1))"
    by (simp only: handleHitscan_def p(1) option.case Let_def s1_def ed_def ch_def cod_def hb_def)
  have m1: "micro s s1" by (rule micro_env) (simp_all add: s1_def)
  have a1: "actor a s1" by (rule actor_env[OF assms]) (simp_all add: s1_def)
  show ?thesis
  proof (cases ch)
    case None
    have "micro s1 (case hb of None \<Rightarrow> s1
                | Some obsKey \<Rightarrow> if obsKey = [] then s1 else damageObstacle obsKey dmg s1)"
      by (rule micro_env) (simp_all split: option.split)
    then show ?thesis unfolding eq None using m1 by (simp add: evolves_def)
  next
    case (Some t)
    then obtain target where tg: "target \<in> set (players s)" "pid target = t"
      "hitscanEligible player target"
      using nearestPlayer_eligible[of player ang cod s t] by (auto simp: ch_def)
    have d1: "distinct (map pid (players s1))" using d by (simp add: s1_def)
    have g1: "getPlayer t s1 = Some target"
      using getPlayer_distinct[OF d tg(1)] tg(2) by (simp add: getPlayer_def s1_def)
    have el: "\<not> isDead target" "\<not> isInSpawn target"
      using tg(3) by (simp_all add: hitscanEligible_def)
    have src: "active s1 ps \<or> a \<in> ownerId ` set (projectiles s1)" if "getPlayer a s1 = Some ps" for ps
      using a1 that by (auto simp: actor_def)
    have m2: "micro s1 (damagePlayer t dmg a s1)"
      by (rule micro_damagePlayer[OF d1 g1 el src])
    have m3: "micro (damagePlayer t dmg a s1) (emit (EvHit t dmg a) (damagePlayer t dmg a s1))"
      by (rule micro_env) simp_all
    show ?thesis unfolding eq Some using m1 m2 m3 by (simp add: evolves_def)
  qed
qed

lemma if_chain3:
  "(if a \<or> b then x else if c then x else if d then x else y) = (if a \<or> b \<or> c \<or> d then x else y)"
  by simp

lemma tryShoot_evolves:
  assumes "actor a s"
  shows "evolves s (tryShoot now rnd a s)"
proof -
  from assms obtain player where d: "distinct (map pid (players s))"
    and p: "getPlayer a s = Some player" "active s player" by (auto simp: actor_def)
  define ws where "ws = WEAPON_STATS (weapon player)"
  define s1 where "s1 = s\<lparr>lastShotTime := (lastShotTime s)(a \<mapsto> now)\<rparr>"
  define s2 where "s2 = modPlayer a (\<lambda>p. p\<lparr>ammo := ammo p - 1\<rparr>) s1"
  define s3 where "s3 = (if ammo player - 1 \<le> 0 then startReload a s2 else s2)"
  define ang where "ang = angle player + (rnd - 1 / 2) * spread ws"
  define pr where "pr = \<lparr>projId = projectileIdCounter s3, ownerId = a,
                             projX = posX player + cos ang * (PLAYER_RADIUS + 5),
                             projY = posY player + sin ang * (PLAYER_RADIUS + 5),
                             projZ = posZ player, projAngle = ang,
                             projSpeed = projectileSpeed ws,
                             projDamage = damage ws,
                             projType = weapon player, projArena = currentArena player,
                             createdAt = now\<rparr>"
  define s4 where "s4 = s3\<lparr>projectiles := projectiles s3 @ [pr],
                         projectileIdCounter := Suc (projectileIdCounter s3)\<rparr>"
  define c where "c = (ammo player \<le> 0 \<or> isReloading player
     \<or> now - (case lastShotTime s a of None \<Rightarrow> 0 | Some t \<Rightarrow> t) < 1000 / fireRate ws
     \<or> length (filter (\<lambda>q. ownerId q = a) (projectiles s)) \<ge> MAX_PROJECTILES_PER_PLAYER)"
  have X: "tryShoot now rnd a s =
      (if ammo player \<le> 0 \<or> isReloading player then s
       else if now - (case lastShotTime s a of None \<Rightarrow> 0 | Some t \<Rightarrow> t) < 1000 / fireRate ws then s
       else if length (filter (\<lambda>q. ownerId q = a) (projectiles s)) \<ge> MAX_PROJECTILES_PER_PLAYER then s
       else if isHitscan ws then handleHitscan a ang (damage ws) (range ws) s3 else s4)"
    by (simp only: tryShoot_def p(1) option.case Let_def s4_def pr_def ang_def s3_def s2_def s1_def ws_def)
  have X': "tryShoot now rnd a s =
      (if c then s else if isHitscan ws then handleHitscan a ang (damage ws) (range ws) s3 else s4)"
    unfolding X c_def by (rule if_chain3)
  have eq: "tryShoot now rnd a s = s
     \<or> tryShoot now rnd a s = handleHitscan a ang (damage ws) (range ws) s3
     \<or> tryShoot now rnd a s = s4"
    by (cases c; cases "isHitscan ws") (simp_all only: X' if_True if_False simp_thms)
  have m1: "micro s s1" by (rule micro_env) (simp_all add: s1_def)
  have a1: "actor a s1" by (rule actor_env[OF assms]) (simp_all add: s1_def)
  have m2: "micro s1 s2" unfolding s2_def
    by (rule micro_act[OF a1, where f="\<lambda>p. p\<lparr>ammo := ammo p - 1\<rparr>"]) simp_all
  have a2: "actor a s2" unfolding s2_def
    by (rule actor_act[OF a1, where f="\<lambda>p. p\<lparr>ammo := ammo p - 1\<rparr>"]) simp_all
  have m3: "evolves s2 s3" unfolding s3_def using startReload_micro[OF a2] by (simp add: micro_evolves)
  have a3: "actor a s3" unfolding s3_def using startReload_actor[OF a2] a2 by simp
  have e3: "evolves s s3" using m1 m2 m3 by (simp add: evolves_def)
  have "ownerId pr = a" by (simp add: pr_def)
  then have m4: "micro s3 s4"
    using a3 getPlayer_SomeD[of a s3] unfolding actor_def
    by (intro micro_env) (auto simp: s4_def)
  from eq show ?thesis
  proof (elim disjE)
    assume "tryShoot now rnd a s = s"
    then show ?thesis by simp
  next
    assume e: "tryShoot now rnd a s = handleHitscan a ang (damage ws) (range ws) s3"
    show ?thesis unfolding e by (rule evolves_trans[OF e3 handleHitscan_evolves[OF a3]])
  next
    assume e: "tryShoot now rnd a s = s4"
    show ?thesis unfolding e by (rule evolves_step[OF e3 m4])
  qed
qed

lemma movePlayer_vitals:
  "pid (movePlayer q inp) = pid q \<and> isInSpawn (movePlayer q inp) = isInSpawn q
   \<and> health (movePlayer q inp) = health q \<and> isDead (movePlayer q inp) = isDead q
   \<and> deaths (movePlayer q inp) = deaths q \<and> kills (movePlayer q inp) = kills q"
  by (simp add: movePlayer_def Let_def)

lemma updatePlayer_evolves:
  assumes "actor a s"
  shows "evolves s (updatePlayer now rnd a inp s)"
proof -
  let ?s1 = "modPlayer a (\<lambda>p. movePlayer p inp) s"
  have m1: "micro s ?s1"
    by (rule micro_act[OF assms, where f="\<lambda>p. movePlayer p inp"]) (simp_all add: movePlayer_vitals)
  have a1: "actor a ?s1"
    by (rule actor_act[OF assms, where f="\<lambda>p. movePlayer p inp"]) (simp_all add: movePlayer_vitals)
  show ?thesis
  proof (cases "shooting inp")
    case True
    then have "updatePlayer now rnd a inp s = tryShoot now rnd a ?s1"
      by (simp only: updatePlayer_def Let_def if_True)
    then show ?thesis
      using evolves_trans[OF micro_evolves[OF m1] tryShoot_evolves[OF a1, of now rnd]]
      by (simp only:)
  next
    case False
    then have "updatePlayer now rnd a inp s = ?s1"
      by (simp only: updatePlayer_def Let_def if_False)
    then show ?thesis using micro_evolves[OF m1] by (simp only:)
  qed
qed

lemma updateOne_evolves:
  assumes "distinct (map pid (players s))"
  shows "evolves s (updateOne now rnd k s)"
proof (cases "getPlayer k s")
  case None
  then show ?thesis by (simp add: updateOne_def)
next
  case (Some player)
  then have pk: "pid player = k" by (simp add: getPlayer_SomeD)
  show ?thesis
  proof (cases "isDead player \<or> playerInputs s k = None")
    case True
    then show ?thesis using Some by (auto simp: updateOne_def)
  next
    case False
    then obtain inp where i: "playerInputs s k = Some inp" by auto
    have "actor k s" using assms Some False pk by (simp add: actor_def active_def)
    then show ?thesis using Some False i by (simp add: updateOne_def updatePlayer_evolves)
  qed
qed

lemma getProjectile_SomeD:
  "getProjectile k s = Some q \<Longrightarrow> q \<in> set (projectiles s) \<and> projId q = k"
  unfolding getProjectile_def by (induction "projectiles s" arbitrary: s) (auto simp: find_Some_iff)

lemma projectileStep_players [simp]:
  "players (projectileStep now k s) = players s"
  "playerInputs (projectileStep now k s) = playerInputs s"
  by (simp_all add: projectileStep_def Let_def split: option.split)

lemma projectileStep_owners:
  "ownerId ` set (projectiles (projectileStep now k s)) \<subseteq> ownerId ` set (projectiles s)"
proof (cases "getProjectile k s")
  case None
  then show ?thesis by (simp add: projectileStep_def)
next
  case (Some proj0)
  let ?proj = "proj0\<lparr>projX := projX proj0 + cos (projAngle proj0) * projSpeed proj0,
                      projY := projY proj0 + sin (projAngle proj0) * projSpeed proj0\<rparr>"
  let ?ps = "map (\<lambda>q. if projId q = k then ?proj else q) (projectiles s)"
  have 0: "proj0 \<in> set (projectiles s)" using getProjectile_SomeD[OF Some] by simp
  have 1: "ownerId ` set ?ps \<subseteq> ownerId ` set (projectiles s)"
    using 0 by (auto simp: image_iff)
  have 2: "set (projectiles (projectileStep now k s)) \<subseteq> set ?ps"
    using Some by (auto simp: projectileStep_def Let_def split: option.splits if_splits)
  show ?thesis using 1 2 by blast
qed

lemma projectileStep_micro: "micro s (projectileStep now k s)"
  using projectileStep_owners[of now k s] by (intro micro_env) auto

lemma updateProjectiles_evolves:
  "distinct (map pid (players s)) \<Longrightarrow> evolves s (updateProjectiles now s)"
  unfolding updateProjectiles_def
  by (rule evolves_fold) (rule micro_evolves[OF projectileStep_micro])

lemma collisionStep_evolves:
  assumes d: "distinct (map pid (players s))"
  shows "evolves s (collisionStep k s)"
proof (cases "getProjectile k s")
  case None
  then show ?thesis by (simp add: collisionStep_def)
next
  case (Some proj)
  show ?thesis
  proof (cases "find (collides proj) (players s)")
    case None
    then show ?thesis using Some by (simp add: collisionStep_def)
  next
    case (Some player)
    let ?s1 = "damagePlayer (pid player) (projDamage proj) (ownerId proj) s"
    let ?s2 = "emit (EvHit (pid player) (projDamage proj) (ownerId proj)) ?s1"
    have pl: "player \<in> set (players s)" "collides proj player"
      using Some by (auto simp: find_Some_iff)
    have g: "getPlayer (pid player) s = Some player" by (rule getPlayer_distinct[OF d pl(1)])
    have el: "\<not> isDead player" "\<not> isInSpawn player" using pl(2) by (simp_all add: collides_def)
    have src: "active s ps \<or> ownerId proj \<in> ownerId ` set (projectiles s)"
      if "getPlayer (ownerId proj) s = Some ps" for ps
      using getProjectile_SomeD[OF \<open>getProjectile k s = Some proj\<close>] by blast
    have m1: "micro s ?s1" by (rule micro_damagePlayer[OF d g el src])
    have m2: "micro ?s1 ?s2" by (rule micro_env) simp_all
    have m3: "micro ?s2 (deleteProjectile k ?s2)" by (rule micro_env) auto
    have "collisionStep k s = deleteProjectile k ?s2"
      using Some \<open>getProjectile k s = Some proj\<close> by (simp add: collisionStep_def)
    then show ?thesis using m1 m2 m3 by (simp add: evolves_def)
  qed
qed

lemma checkCollisions_evolves:
  "distinct (map pid (players s)) \<Longrightarrow> evolves s (checkCollisions s)"
  unfolding checkCollisions_def by (rule evolves_fold) (rule collisionStep_evolves)

lemma update_evolves:
  assumes "distinct (map pid (players s))"
  shows "evolves s (update now rnd s)"
proof -
  let ?s1 = "fold (updateOne now rnd) (map pid (players s)) s"
  have 1: "evolves s ?s1" by (rule evolves_fold[OF updateOne_evolves assms])
  have 2: "evolves ?s1 (updateProjectiles now ?s1)"
    by (rule updateProjectiles_evolves[OF evolves_distinct[OF 1 assms]])
  have 3: "evolves (updateProjectiles now ?s1) (checkCollisions (updateProjectiles now ?s1))"
    by (rule checkCollisions_evolves[OF evolves_distinct[OF evolves_trans[OF 1 2] assms]])
  show ?thesis unfolding update_def by (rule evolves_trans[OF evolves_trans[OF 1 2] 3])
qed

lemma list_all2_find_pid:
  "list_all2 (allowed s) ps ps' \<Longrightarrow> find (\<lambda>x. pid x = q) ps = Some p \<Longrightarrow>
   \<exists>p'. find (\<lambda>x. pid x = q) ps' = Some p' \<and> allowed s p p'"
  by (induction rule: list_all2_induct) (auto simp: allowed_def split: if_splits)

lemma micro_getPlayer:
  assumes "micro s s'" "getPlayer q s = Some p"
  shows "players s' = [] \<or> (\<exists>p'. getPlayer q s' = Some p' \<and> allowed s p p')"
  using assms list_all2_find_pid[of s "players s" "players s'" q p]
  unfolding micro_def getPlayer_def by blast

lemma micro_ended_stays: "micro s s' \<Longrightarrow> players s = [] \<Longrightarrow> players s' = []"
  unfolding micro_def by auto

lemma micro_inputs: "micro s s' \<Longrightarrow> players s' = [] \<or> playerInputs s' = playerInputs s"
  unfolding micro_def by auto

lemma allowed_dead:
  assumes "allowed s p p'" "isDead p"
  shows "noVitals p' = noVitals p" "health p' = health p" "isDead p'" "deaths p' = deaths p"
    "kills p \<le> kills p'" "pid p \<notin> ownerId ` set (projectiles s) \<Longrightarrow> kills p' = kills p"
  using assms by (auto simp: allowed_def active_def vitalsOnly_def)

lemma noVitals_eqD:
  "noVitals p' = noVitals p \<Longrightarrow> health p' = health p \<Longrightarrow> isDead p' = isDead p \<Longrightarrow>
   deaths p' = deaths p \<Longrightarrow> p' = p\<lparr>kills := kills p'\<rparr>"
proof -
  assume a: "noVitals p' = noVitals p" "health p' = health p" "isDead p' = isDead p"
    "deaths p' = deaths p"
  have "p' = (noVitals p')\<lparr>health := health p', isDead := isDead p', deaths := deaths p',
      kills := kills p'\<rparr>" by (simp add: noVitals_def)
  also have "\<dots> = (noVitals p)\<lparr>health := health p, isDead := isDead p, deaths := deaths p,
      kills := kills p'\<rparr>" by (simp only: a)
  also have "\<dots> = p\<lparr>kills := kills p'\<rparr>" by (simp add: noVitals_def)
  finally show ?thesis .
qed

lemma evolves_dead:
  assumes "evolves s s'" "getPlayer q s = Some p" "isDead p"
  shows "players s' = [] \<or> (\<exists>k. getPlayer q s' = Some (p\<lparr>kills := k\<rparr>) \<and> kills p \<le> k)"
  using assms(1) unfolding evolves_def
proof (induction rule: rtranclp_induct)
  case base
  have "p\<lparr>kills := kills p\<rparr> = p" by simp
  then show ?case using assms(2) by (metis order_refl)
next
  case (step y z)
  show ?case
  proof (cases "players y = []")
    case True
    then show ?thesis using micro_ended_stays[OF step.hyps(2)] by simp
  next
    case False
    then obtain k where k: "getPlayer q y = Some (p\<lparr>kills := k\<rparr>)" "kills p \<le> k"
      using step.IH by blast
    show ?thesis
    proof (cases "players z = []")
      case True
      then show ?thesis by simp
    next
      case False
      then obtain p' where p': "getPlayer q z = Some p'" "allowed y (p\<lparr>kills := k\<rparr>) p'"
        using micro_getPlayer[OF step.hyps(2) k(1)] by blast
      have dd: "isDead (p\<lparr>kills := k\<rparr>)" using assms(3) by simp
      note A = allowed_dead[OF p'(2) dd]
      have "p' = (p\<lparr>kills := k\<rparr>)\<lparr>kills := kills p'\<rparr>"
        using A(3) dd by (intro noVitals_eqD A(1,2,4)) simp
      then have "p' = p\<lparr>kills := kills p'\<rparr>" by simp
      moreover have "kills p \<le> kills p'" using A(5) k(2) by simp
      ultimately show ?thesis using p'(1) by metis
    qed
  qed
qed

lemma micro_owners:
  assumes "micro s s'" "distinct (map pid (players s))" "getPlayer q s = Some p" "isDead p"
    "q \<notin> ownerId ` set (projectiles s)"
  shows "players s' = [] \<or> q \<notin> ownerId ` set (projectiles s')"
proof (cases "players s' = []")
  case True
  then show ?thesis by simp
next
  case False
  then have pr: "\<forall>x \<in> set (projectiles s'). ownerId x \<in> ownerId ` set (projectiles s)
            \<or> (\<exists>p \<in> set (players s). pid p = ownerId x \<and> active s p)"
    using assms(1) unfolding micro_def by blast
  have "ownerId x \<noteq> q" if "x \<in> set (projectiles s')" for x
  proof
    assume e: "ownerId x = q"
    from pr that have "ownerId x \<in> ownerId ` set (projectiles s)
            \<or> (\<exists>p \<in> set (players s). pid p = ownerId x \<and> active s p)" by (rule bspec)
    then obtain p' where p': "p' \<in> set (players s)" "pid p' = q" "active s p'"
      using assms(5) e by auto
    have "p' = p" by (rule getPlayer_unique[OF assms(2,3) p'(1,2)])
    then have "active s p" using p'(3) by (simp only:)
    then show False using assms(4) by (simp add: active_def)
  qed
  then show ?thesis by blast
qed

lemma evolves_dead_noproj:
  assumes "evolves s s'" "distinct (map pid (players s))" "getPlayer q s = Some p" "isDead p"
    "q \<notin> ownerId ` set (projectiles s)"
  shows "players s' = [] \<or> (getPlayer q s' = Some p \<and> q \<notin> ownerId ` set (projectiles s')
          \<and> distinct (map pid (players s')))"
  using assms(1) unfolding evolves_def
proof (induction rule: rtranclp_induct)
  case base
  then show ?case using assms by simp
next
  case (step y z)
  show ?case
  proof (cases "players y = []")
    case True
    then show ?thesis using micro_ended_stays[OF step.hyps(2)] by simp
  next
    case False
    then have y: "getPlayer q y = Some p" "q \<notin> ownerId ` set (projectiles y)"
      "distinct (map pid (players y))"
      using step.IH by blast+
    show ?thesis
    proof (cases "players z = []")
      case True
      then show ?thesis by simp
    next
      case False
      then obtain p' where p': "getPlayer q z = Some p'" "allowed y p p'"
        using micro_getPlayer[OF step.hyps(2) y(1)] by blast
      have pq: "pid p = q" using getPlayer_SomeD[OF y(1)] by simp
      note A = allowed_dead[OF p'(2) assms(4)]
      have k: "kills p' = kills p" using A(6) y(2) pq by simp
      have "p' = p\<lparr>kills := kills p'\<rparr>"
        using A(3) assms(4) by (intro noVitals_eqD A(1,2,4)) simp
      then have "p' = p" unfolding k by simp
      moreover have "q \<notin> ownerId ` set (projectiles z)"
        using micro_owners[OF step.hyps(2) y(3) y(1) assms(4) y(2)] False by blast
      moreover have "distinct (map pid (players z))"
        by (rule micro_distinct[OF step.hyps(2) y(3)])
      ultimately show ?thesis using p'(1) by blast
    qed
  qed
qed

lemma allowed_protected:
  assumes "allowed s p p'" "isInSpawn p"
  shows "health p' = health p" "isDead p' = isDead p" "deaths p' = deaths p" "isInSpawn p'"
  using assms by (auto simp: allowed_def)

lemma evolves_protected:
  assumes "evolves s s'" "getPlayer q s = Some p" "isInSpawn p"
  shows "players s' = [] \<or> (\<exists>p'. getPlayer q s' = Some p' \<and> health p' = health p
      \<and> isDead p' = isDead p \<and> deaths p' = deaths p \<and> isInSpawn p')"
  using assms(1) unfolding evolves_def
proof (induction rule: rtranclp_induct)
  case base
  then show ?case using assms by simp
next
  case (step y z)
  show ?case
  proof (cases "players y = []")
    case True
    then show ?thesis using micro_ended_stays[OF step.hyps(2)] by simp
  next
    case False
    then obtain py where y: "getPlayer q y = Some py" "health py = health p"
       "isDead py = isDead p" "deaths py = deaths p" "isInSpawn py"
      using step.IH by blast
    show ?thesis
    proof (cases "players z = []")
      case True
      then show ?thesis by simp
    next
      case False
      then obtain p' where p': "getPlayer q z = Some p'" "allowed y py p'"
        using micro_getPlayer[OF step.hyps(2) y(1)] by blast
      note A = allowed_protected[OF p'(2) y(5)]
      show ?thesis using p'(1) A y(2,3,4) by simp
    qed
  qed
qed

lemma allowed_idle:
  assumes "allowed s p p'" "playerInputs s (pid p) = None"
  shows "noVitals p' = noVitals p" "pid p' = pid p"
  using assms by (auto simp: allowed_def active_def vitalsOnly_def)

lemma evolves_no_input:
  assumes "evolves s s'" "getPlayer q s = Some p" "playerInputs s q = None"
  shows "players s' = [] \<or> (playerInputs s' q = None
      \<and> (\<exists>p'. getPlayer q s' = Some p' \<and> noVitals p' = noVitals p))"
  using assms(1) unfolding evolves_def
proof (induction rule: rtranclp_induct)
  case base
  then show ?case using assms by simp
next
  case (step y z)
  show ?case
  proof (cases "players y = []")
    case True
    then show ?thesis using micro_ended_stays[OF step.hyps(2)] by simp
  next
    case False
    then obtain py where y: "getPlayer q y = Some py" "noVitals py = noVitals p"
      "playerInputs y q = None"
      using step.IH by blast
    show ?thesis
    proof (cases "players z = []")
      case True
      then show ?thesis by simp
    next
      case False
      then obtain p' where p': "getPlayer q z = Some p'" "allowed y py p'"
        using micro_getPlayer[OF step.hyps(2) y(1)] by blast
      have pq: "pid py = q" using getPlayer_SomeD[OF y(1)] by simp
      have "noVitals p' = noVitals py" using allowed_idle(1)[OF p'(2)] y(3) pq by simp
      then have "noVitals p' = noVitals p" using y(2) by simp
      moreover have "playerInputs z q = None" using micro_inputs[OF step.hyps(2)] False y(3) by auto
      ultimately show ?thesis using p'(1) by simp
    qed
  qed
qed

section \<open>Tick-level lemmas and evaluation of the examples\<close>

lemma exPlayer_sel [simp]:
  "pid (exPlayer k) = k" "isDead (exPlayer k) = False" "isInSpawn (exPlayer k) = False"
  "posX (exPlayer k) = 100" "posY (exPlayer k) = 100" "posZ (exPlayer k) = 20"
  "health (exPlayer k) = 100" "currentArena (exPlayer k) = CENTER" "kills (exPlayer k) = 0"
  "deaths (exPlayer k) = 0" "ammo (exPlayer k) = 4" "isReloading (exPlayer k) = False"
  "weapon (exPlayer k) = ROCKET" "movement (exPlayer k) = WINGS" "angle (exPlayer k) = 0"
  "velocityX (exPlayer k) = 0" "velocityY (exPlayer k) = 0" "fuel (exPlayer k) = 0"
  "maxFuel (exPlayer k) = 0" "maxHealth (exPlayer k) = 100"
  by (simp_all add: exPlayer_def)

lemma exRoom_sel [simp]:
  "players (exRoom ps) = ps" "projectiles (exRoom ps) = []" "obstacles (exRoom ps) = []"
  "playerInputs (exRoom ps) = (\<lambda>_. None)" "gameLoop (exRoom ps) = True"
  "lastShotTime (exRoom ps) = (\<lambda>_. None)" "reloadTimers (exRoom ps) = []"
  "spawnProtectionTimers (exRoom ps) = []" "pendingTimers (exRoom ps) = []"
  "emitted (exRoom ps) = []" "nextTimer (exRoom ps) = 0" "tick (exRoom ps) = 0"
  "projectileIdCounter (exRoom ps) = 0" "inLoadoutPhase (exRoom ps) = True"
  by (simp_all add: exRoom_def newRoom_def)

lemma cx6_players: 
  "players (update 100 (\<lambda>_. 0) exDeadOwner) = 
     [(exPlayer ''a'')\<lparr>isDead := True, health := 0, deaths := 1, kills := 1\<rparr>,
       (exPlayer ''b'')\<lparr>posX := 300, health := 0, isDead := True, deaths := 1\<rparr>]"
  by (simp add: update_def updateOne_def exDeadOwner_def getPlayer_def updateProjectiles_def
     projectileStep_def getProjectile_def Let_def pointInRect_def rect_def deleteProjectile_def
     checkCollisions_def collisionStep_def collides_def damagePlayer_def modPlayer_def emit_def)

lemma posXY_movePlayer:
  "(posX (movePlayer p inp), posY (movePlayer p inp)) =
     fold pushOut (walls (ARENAS (currentArena p)))
       (max PLAYER_RADIUS (min (arenaWidth (ARENAS (currentArena p)) - PLAYER_RADIUS) (posX p + velocityX (movePlayer p inp))),
        max PLAYER_RADIUS (min (arenaHeight (ARENAS (currentArena p)) - PLAYER_RADIUS) (posY p + velocityY (movePlayer p inp))))"
  by (simp add: movePlayer_def Let_def)

lemma vxy_movePlayer:
  "velocityX (movePlayer p inp) = (velocityX p + (fst (targetVelocity (MOVEMENT_STATS (movement p)) inp) - velocityX p) * acceleration (MOVEMENT_STATS (movement p))) * friction (MOVEMENT_STATS (movement p))"
  "velocityY (movePlayer p inp) = (velocityY p + (snd (targetVelocity (MOVEMENT_STATS (movement p)) inp) - velocityY p) * acceleration (MOVEMENT_STATS (movement p))) * friction (MOVEMENT_STATS (movement p))"
  by (simp_all add: movePlayer_def Let_def)

lemma movePlayer_same [simp]:
  "pid (movePlayer p inp) = pid p" "isDead (movePlayer p inp) = isDead p"
  "isInSpawn (movePlayer p inp) = isInSpawn p" "health (movePlayer p inp) = health p"
  "kills (movePlayer p inp) = kills p" "deaths (movePlayer p inp) = deaths p"
  "ammo (movePlayer p inp) = ammo p" "isReloading (movePlayer p inp) = isReloading p"
  "weapon (movePlayer p inp) = weapon p" "movement (movePlayer p inp) = movement p"
  "currentArena (movePlayer p inp) = currentArena p" "maxHealth (movePlayer p inp) = maxHealth p"
  "maxFuel (movePlayer p inp) = maxFuel p" "angle (movePlayer p inp) = mouseAngle inp"
  by (simp_all add: movePlayer_def Let_def)

lemma posZ_movePlayer:
  "posZ (movePlayer p inp) = max MIN_Z (min MAX_Z (posZ p + velocityZ (movePlayer p inp)))"
  by (simp add: movePlayer_def Let_def)

lemma idle_target: "targetVelocity st (idleInput\<lparr>shooting := b\<rparr>) = (0, 0)"
  by (simp add: targetVelocity_def idleInput_def)

lemma exSniper_sel [simp]: "posX exSniper = 100" "posY exSniper = 100" "posZ exSniper = 20" "velocityX exSniper = 0" "velocityY exSniper = 0"
  "movement exSniper = WINGS" "currentArena exSniper = CENTER" "fuel exSniper = 0" "pid exSniper = ''a''"
  by (simp_all add: exSniper_def)

lemma shoot_sel [simp]: "shooting shootInput" "mouseAngle shootInput = 0" "jump shootInput = False" "crouch shootInput = False"
  by (simp_all add: shootInput_def idleInput_def)

lemma shoot_target [simp]: "targetVelocity st shootInput = (0, 0)"
  by (simp add: targetVelocity_def idleInput_def shootInput_def)

lemma exSniper_sel2 [simp]: "isDead exSniper = False" "ammo exSniper = 1" "isReloading exSniper = False" "weapon exSniper = SNIPER" "isInSpawn exSniper" "health exSniper = 100" "kills exSniper = 0"
  by (simp_all add: exSniper_def)

lemma moved_sel [simp]:
  "posX (movePlayer exSniper shootInput) = 100" "posY (movePlayer exSniper shootInput) = 100"
  "posZ (movePlayer exSniper shootInput) = 39 / 2"
proof -
  show "posX (movePlayer exSniper shootInput) = 100" "posY (movePlayer exSniper shootInput) = 100"
    using posXY_movePlayer[of exSniper shootInput]
    by (simp_all add: vxy_movePlayer pushOut_def rectCircleCollision_def rect_def)
  show "posZ (movePlayer exSniper shootInput) = 39 / 2"
    by (simp add: posZ_movePlayer vz_movePlayer fuelStep_def verticalVelocity_def)
qed

lemma sqrt_1600: "sqrt 1600 = 40"
proof -
  have "sqrt 1600 = sqrt (40\<^sup>2)" by simp
  also have "\<dots> = 40" by (simp only: real_sqrt_abs)
  finally show ?thesis .
qed

lemma cx1_step1:
  "players (updateOne 5000 (\<lambda>_. 0) ''a'' exProtectedSniper) =
     [(movePlayer exSniper shootInput)\<lparr>ammo := 0, isReloading := True, kills := 1\<rparr>,
      (exPlayer ''b'')\<lparr>posX := 300, health := 0, isDead := True, deaths := 1\<rparr>]"
  by (simp add: updateOne_def exProtectedSniper_def getPlayer_def 
     handleInput_def updatePlayer_def tryShoot_def startReload_def setTimeout_def mapSet_def
     handleHitscan_def nearestObstacle_def nearestPlayer_def playerHit_def hitscanEligible_def rayCircle_def
     wallBlock_def nearer_def rayRectIntersect_def invDir_def js_lt_def js_max_def js_min_def finValue_def
     sqrt_1600 Let_def rect_def damagePlayer_def modPlayer_def emit_def)

lemma gameTick_evolves:
  assumes "distinct (map pid (players s))"
  shows "evolves s (gameTick now rnd s)"
proof (cases "gameLoop s")
  case False
  then show ?thesis by (simp add: gameTick_def)
next
  case True
  let ?u = "update now rnd s"
  let ?b = "broadcastState now ?u"
  have 1: "evolves s ?u" by (rule update_evolves[OF assms])
  have 2: "micro ?u ?b" by (rule micro_env) (simp_all add: broadcastState_def)
  have 3: "micro ?b (?b\<lparr>tick := tick ?b + 1\<rparr>)" by (rule micro_env) simp_all
  have "gameTick now rnd s = ?b\<lparr>tick := tick ?b + 1\<rparr>"
    using True by (simp add: gameTick_def Let_def)
  then show ?thesis using evolves_step[OF evolves_step[OF 1 2] 3] by (simp only:)
qed

lemma noVitals_fields:
  assumes "noVitals p' = noVitals p"
  shows "posX p' = posX p" "posY p' = posY p" "posZ p' = posZ p"
    "velocityX p' = velocityX p" "velocityY p' = velocityY p" "velocityZ p' = velocityZ p"
    "angle p' = angle p" "fuel p' = fuel p" "ammo p' = ammo p" "isReloading p' = isReloading p"
proof -
  have "posX (noVitals p') = posX (noVitals p)" by (simp only: assms)
  then show "posX p' = posX p" by (simp add: noVitals_def)
  have "posY (noVitals p') = posY (noVitals p)" by (simp only: assms)
  then show "posY p' = posY p" by (simp add: noVitals_def)
  have "posZ (noVitals p') = posZ (noVitals p)" by (simp only: assms)
  then show "posZ p' = posZ p" by (simp add: noVitals_def)
  have "velocityX (noVitals p') = velocityX (noVitals p)" by (simp only: assms)
  then show "velocityX p' = velocityX p" by (simp add: noVitals_def)
  have "velocityY (noVitals p') = velocityY (noVitals p)" by (simp only: assms)
  then show "velocityY p' = velocityY p" by (simp add: noVitals_def)
  have "velocityZ (noVitals p') = velocityZ (noVitals p)" by (simp only: assms)
  then show "velocityZ p' = velocityZ p" by (simp add: noVitals_def)
  have "angle (noVitals p') = angle (noVitals p)" by (simp only: assms)
  then show "angle p' = angle p" by (simp add: noVitals_def)
  have "fuel (noVitals p') = fuel (noVitals p)" by (simp only: assms)
  then show "fuel p' = fuel p" by (simp add: noVitals_def)
  have "ammo (noVitals p') = ammo (noVitals p)" by (simp only: assms)
  then show "ammo p' = ammo p" by (simp add: noVitals_def)
  have "isReloading (noVitals p') = isReloading (noVitals p)" by (simp only: assms)
  then show "isReloading p' = isReloading p" by (simp add: noVitals_def)
qed

lemma updateOne_skip:
  "getPlayer k s = Some p \<Longrightarrow> isDead p \<or> playerInputs s k = None \<Longrightarrow> updateOne now rnd k s = s"
  by (auto simp: updateOne_def)

lemma no_projectiles_idle:
  "projectiles s = [] \<Longrightarrow> updateProjectiles now s = s \<and> checkCollisions s = s"
  by (simp add: updateProjectiles_def checkCollisions_def)

lemma players_gameTick:
  "players (gameTick now rnd s) = (if gameLoop s then players (update now rnd s) else players s)"
  by (simp add: gameTick_def Let_def broadcastState_def)

lemma handleInput_fields [simp]:
  "players (handleInput a i s) = players s" "projectiles (handleInput a i s) = projectiles s"
  "obstacles (handleInput a i s) = obstacles s" "gameLoop (handleInput a i s) = gameLoop s"
  "playerInputs (handleInput a i s) = (playerInputs s)(a \<mapsto> i)"
  "lastShotTime (handleInput a i s) = lastShotTime s"
  "reloadTimers (handleInput a i s) = reloadTimers s"
  "pendingTimers (handleInput a i s) = pendingTimers s"
  "nextTimer (handleInput a i s) = nextTimer s" "emitted (handleInput a i s) = emitted s"
  "projectileIdCounter (handleInput a i s) = projectileIdCounter s"
  by (simp_all add: handleInput_def)

lemma cx1_step1_proj:
  "projectiles (updateOne 5000 (\<lambda>_. 0) ''a'' exProtectedSniper) = []"
  by (simp add: updateOne_def exProtectedSniper_def getPlayer_def 
     updatePlayer_def tryShoot_def startReload_def setTimeout_def mapSet_def
     handleHitscan_def nearestObstacle_def nearestPlayer_def playerHit_def hitscanEligible_def rayCircle_def
     wallBlock_def nearer_def rayRectIntersect_def invDir_def js_lt_def js_max_def js_min_def finValue_def
     sqrt_1600 Let_def rect_def damagePlayer_def modPlayer_def emit_def)

section \<open>Timers, respawn and the end of the match\<close>

lemma cancelTimer_fields [simp]:
  "players (cancelTimer a ts s) = players s" "playerInputs (cancelTimer a ts s) = playerInputs s"
  "projectiles (cancelTimer a ts s) = projectiles s" "obstacles (cancelTimer a ts s) = obstacles s"
  "reloadTimers (cancelTimer a ts s) = reloadTimers s"
  "spawnProtectionTimers (cancelTimer a ts s) = spawnProtectionTimers s"
  "gameLoop (cancelTimer a ts s) = gameLoop s" "emitted (cancelTimer a ts s) = emitted s"
  "inLoadoutPhase (cancelTimer a ts s) = inLoadoutPhase s"
  by (simp_all add: cancelTimer_def clearTimeout_def split: option.split)

lemma grantSpawnProtection_fields [simp]:
  "players (grantSpawnProtection a s) = map (\<lambda>p. if pid p = a then p\<lparr>isInSpawn := True\<rparr> else p) (players s)"
  "playerInputs (grantSpawnProtection a s) = playerInputs s"
  "projectiles (grantSpawnProtection a s) = projectiles s"
  "obstacles (grantSpawnProtection a s) = obstacles s"
  "reloadTimers (grantSpawnProtection a s) = reloadTimers s"
  "gameLoop (grantSpawnProtection a s) = gameLoop s" "emitted (grantSpawnProtection a s) = emitted s"
  "inLoadoutPhase (grantSpawnProtection a s) = inLoadoutPhase s"
  by (simp_all add: grantSpawnProtection_def Let_def setTimeout_def)

lemma find_map_upd:
  assumes "find (\<lambda>q. pid q = a) ps = Some p" "\<And>q. pid (f q) = pid q"
  shows "find (\<lambda>q. pid q = a) (map (\<lambda>q. if pid q = a then f q else q) ps) = Some (f p)"
  using assms(1) by (induction ps) (auto simp: assms(2))

lemma endGame_stops:
  assumes "players s = []" "projectiles s = []" "\<not> gameLoop s"
  shows "gameTick now rnd s = s" "update now rnd s = s" "updateOne now rnd k s = s"
    "projectileStep now j s = s" "collisionStep j s = s"
  using assms
  by (simp_all add: gameTick_def update_def updateOne_def projectileStep_def collisionStep_def
      updateProjectiles_def checkCollisions_def getPlayer_def getProjectile_def)

section \<open>The searches of the hitscan\<close>




















section \<open>The bounds invariant\<close>

lemma roomOk_cong:
  assumes "roomOk s" "players s' = players s" "projectiles s' = projectiles s"
    "pendingTimers s' = pendingTimers s" "reloadTimers s' = reloadTimers s"
    "inLoadoutPhase s' = inLoadoutPhase s"
  shows "roomOk s'"
  using assms by (simp add: roomOk_def reloadOk_def getPlayer_def)

lemma roomOk_less_timers:
  assumes "roomOk s" "players s' = players s" "projectiles s' = projectiles s"
    "set (pendingTimers s') \<subseteq> set (pendingTimers s)" "reloadTimers s' = reloadTimers s"
    "inLoadoutPhase s' = inLoadoutPhase s"
  shows "roomOk s'"
  using assms unfolding roomOk_def reloadOk_def getPlayer_def by (simp add: subset_iff) blast

lemma roomOk_emit [simp]: "roomOk (emit e s) = roomOk s"
  by (simp add: roomOk_def reloadOk_def getPlayer_def)

lemma getPlayer_map_other:
  assumes "\<And>q. pid (g q) = pid q" "\<And>q. q \<in> set (players s) \<Longrightarrow> pid q \<noteq> a \<Longrightarrow> g q = q"
    "players s' = map g (players s)" "b \<noteq> a"
  shows "getPlayer b s' = getPlayer b s"
proof -
  have "find (\<lambda>q. pid q = b) (map g ps) = find (\<lambda>q. pid q = b) ps"
    if "\<And>q. q \<in> set ps \<Longrightarrow> pid q \<noteq> a \<Longrightarrow> g q = q" for ps
    using that by (induction ps) (auto simp: assms(1,4))
  then show ?thesis using assms(2,3) by (simp add: getPlayer_def)
qed

text \<open>A change of the players by a map that keeps ids, weapons and set reloading flags.\<close>

lemma roomOk_map:
  assumes ok: "roomOk s"
    and g: "\<And>q. q \<in> set (players s) \<Longrightarrow> pid (g q) = pid q \<and> playerOk (g q)
                \<and> weapon (g q) = weapon q \<and> (isReloading q \<longrightarrow> isReloading (g q))"
    and s': "players s' = map g (players s)" "projectiles s' = projectiles s"
      "\<And>h a w. (h, ReloadDone a w) \<in> set (pendingTimers s') \<Longrightarrow>
          (h, ReloadDone a w) \<in> set (pendingTimers s)"
      "reloadTimers s' = reloadTimers s"
      "inLoadoutPhase s' = inLoadoutPhase s"
  shows "roomOk s'"
proof -
  have ids: "map pid (map g (players s)) = map pid (players s)"
    using g by (induction "players s") (simp_all add: g)
  have fnd: "find (\<lambda>q. pid q = a) (map g ps) = map_option g (find (\<lambda>q. pid q = a) ps)"
    if "\<And>q. q \<in> set ps \<Longrightarrow> pid (g q) = pid q" for ps a
    using that by (induction ps) auto
  have gp: "getPlayer a s' = map_option g (getPlayer a s)" for a
    unfolding getPlayer_def s'(1) by (rule fnd) (simp add: g)
  have r: "reloadOk s'"
    unfolding reloadOk_def
  proof (intro allI impI)
    fix h a w assume "(h, ReloadDone a w) \<in> set (pendingTimers s')"
    then have "(h, ReloadDone a w) \<in> set (pendingTimers s)" by (rule s'(3))
    then obtain p where p: "map_of (reloadTimers s) a = Some h" "getPlayer a s = Some p"
      "weapon p = w" "isReloading p"
      using ok unfolding roomOk_def reloadOk_def by blast
    have "p \<in> set (players s)" using getPlayer_SomeD[OF p(2)] by simp
    from g[OF this] have "weapon (g p) = w" "isReloading (g p)" using p(3,4) by simp_all
    then show "map_of (reloadTimers s') a = Some h
       \<and> (\<exists>p. getPlayer a s' = Some p \<and> weapon p = w \<and> isReloading p)"
      using p(1,2) gp s'(4) by simp
  qed
  show ?thesis unfolding roomOk_def
    using ok r g unfolding roomOk_def s' ids by auto
qed

lemma roomOk_modPlayer:
  assumes ok: "roomOk s"
    and g: "\<And>q. q \<in> set (players s) \<Longrightarrow> pid q = a \<Longrightarrow> pid (f q) = pid q \<and> playerOk (f q)
                \<and> weapon (f q) = weapon q \<and> (isReloading q \<longrightarrow> isReloading (f q))"
  shows "roomOk (modPlayer a f s)"
proof (rule roomOk_map[OF ok, where g="\<lambda>p. if pid p = a then f p else p"])
  fix q assume q: "q \<in> set (players s)"
  have "playerOk q" using ok q by (simp add: roomOk_def)
  then show "pid (if pid q = a then f q else q) = pid q \<and> playerOk (if pid q = a then f q else q)
    \<and> weapon (if pid q = a then f q else q) = weapon q
    \<and> (isReloading q \<longrightarrow> isReloading (if pid q = a then f q else q))"
    using g[OF q] by simp
qed simp_all

lemma stats_nonneg:
  "0 \<le> fuelDrain (MOVEMENT_STATS m)" "0 \<le> fuelRegen (MOVEMENT_STATS m)"
  "0 \<le> fuelCapacity (MOVEMENT_STATS m)"
  by (cases m; simp)+

lemma weapon_nonneg: "0 \<le> damage (WEAPON_STATS w)" "0 < clipSize (WEAPON_STATS w)"
  by (cases w; simp)+

lemma fuelStep_bounds:
  assumes "0 \<le> f" "f \<le> fuelCapacity st" "0 \<le> fuelDrain st" "0 \<le> fuelRegen st"
  shows "0 \<le> snd (fuelStep st g j f) \<and> snd (fuelStep st g j f) \<le> fuelCapacity st"
  using assms by (auto simp: fuelStep_def Let_def)

lemma movePlayer_ok: "playerOk p \<Longrightarrow> playerOk (movePlayer p inp)"
proof -
  assume ok: "playerOk p"
  have f: "0 \<le> fuel (movePlayer p inp) \<and> fuel (movePlayer p inp) \<le> fuelCapacity (MOVEMENT_STATS (movement p))"
    unfolding fuel_movePlayer
    by (rule fuelStep_bounds) (use ok stats_nonneg in \<open>simp_all add: playerOk_def bounds_def\<close>)
  have z: "MIN_Z \<le> posZ (movePlayer p inp) \<and> posZ (movePlayer p inp) \<le> MAX_Z"
    by (simp add: posZ_movePlayer)
  show ?thesis using ok f z by (simp add: playerOk_def bounds_def)
qed

lemma map_of_replace_other:
  "b \<noteq> a \<Longrightarrow> map_of (map (\<lambda>e. if fst e = a then (a, v) else e) m) b = map_of m b"
  by (induction m) auto

lemma map_of_replace_same:
  "a \<in> fst ` set m \<Longrightarrow> map_of (map (\<lambda>e. if fst e = a then (a, v) else e) m) a = Some v"
  by (induction m) auto

lemma map_of_mapSet: "map_of (mapSet a v m) b = (if b = a then Some v else map_of m b)"
proof (cases "a \<in> fst ` set m")
  case False
  then have "map_of m a = None" by (simp add: map_of_eq_None_iff)
  then show ?thesis using False by (auto simp: mapSet_def map_add_def split: option.split)
next
  case True
  then show ?thesis
    by (simp add: mapSet_def map_of_replace_other map_of_replace_same)
qed

lemma map_of_mapDelete: "map_of (mapDelete a m) b = (if b = a then None else map_of m b)"
  by (induction m) (auto simp: mapDelete_def)

lemma roomOk_endGame:
  assumes "roomOk s"
  shows "roomOk (endGame w s)"
proof -
  have "\<not> (h, ReloadDone a w') \<in> set (pendingTimers (endGame w s))" for h a w'
  proof
    assume "(h, ReloadDone a w') \<in> set (pendingTimers (endGame w s))"
    then have i: "(h, ReloadDone a w') \<in> set (pendingTimers s)"
      and n: "h \<notin> snd ` set (reloadTimers s)"
      by (auto simp: endGame_def Let_def setTimeout_def emit_def)
    from assms i have "map_of (reloadTimers s) a = Some h"
      unfolding roomOk_def reloadOk_def by blast
    then have "(a, h) \<in> set (reloadTimers s)" by (rule map_of_SomeD)
    then show False using n by force
  qed
  then show ?thesis by (simp add: roomOk_def reloadOk_def)
qed

lemma roomOk_unique:
  "roomOk s \<Longrightarrow> getPlayer a s = Some p \<Longrightarrow> q \<in> set (players s) \<Longrightarrow> pid q = a \<Longrightarrow> q = p"
  using getPlayer_unique[of s a p q] by (simp add: roomOk_def)

lemma roomOk_playerOk: "roomOk s \<Longrightarrow> getPlayer a s = Some p \<Longrightarrow> playerOk p"
  using getPlayer_SomeD[of a s p] by (simp add: roomOk_def)

lemma damagePlayer_lethal_eq:
  assumes "getPlayer t s = Some pt" "health pt - dmg \<le> 0"
  shows "damagePlayer t dmg src s =
      emit (EvKill src t) (modPlayer src (\<lambda>p. p\<lparr>kills := kills p + 1\<rparr>)
                 (modPlayer t (\<lambda>p. p\<lparr>health := 0, isDead := True, deaths := deaths p + 1\<rparr>) s))
    \<or> (\<exists>w. damagePlayer t dmg src s = endGame w
      (emit (EvKill src t) (modPlayer src (\<lambda>p. p\<lparr>kills := kills p + 1\<rparr>)
                 (modPlayer t (\<lambda>p. p\<lparr>health := 0, isDead := True, deaths := deaths p + 1\<rparr>) s))))"
proof -
  let ?s3 = "emit (EvKill src t) (modPlayer src (\<lambda>p. p\<lparr>kills := kills p + 1\<rparr>)
                 (modPlayer t (\<lambda>p. p\<lparr>health := 0, isDead := True, deaths := deaths p + 1\<rparr>) s))"
  have "damagePlayer t dmg src s = (case getPlayer src ?s3 of
                None \<Rightarrow> ?s3
              | Some source \<Rightarrow> if kills source \<ge> KILL_LIMIT then endGame (pid source) ?s3 else ?s3)"
    using assms by (simp add: damagePlayer_def Let_def)
  then show ?thesis
    by (cases "getPlayer src ?s3") (auto simp only: option.case split: if_splits)
qed

lemma roomOk_damagePlayer:
  assumes ok: "roomOk s" and d: "0 \<le> dmg"
  shows "roomOk (damagePlayer t dmg src s)"
proof (cases "getPlayer t s")
  case None
  then show ?thesis using ok by (simp add: damagePlayer_def)
next
  case (Some pt)
  note pok = roomOk_playerOk[OF ok Some]
  show ?thesis
  proof (cases "health pt - dmg \<le> 0")
    case False
    have "roomOk (modPlayer t (\<lambda>p. p\<lparr>health := health p - dmg\<rparr>) s)"
    proof (rule roomOk_modPlayer[OF ok])
      fix q assume q: "q \<in> set (players s)" "pid q = t"
      have qp: "q = pt" by (rule roomOk_unique[OF ok Some q])
      show "pid (q\<lparr>health := health q - dmg\<rparr>) = pid q \<and> playerOk (q\<lparr>health := health q - dmg\<rparr>)
        \<and> weapon (q\<lparr>health := health q - dmg\<rparr>) = weapon q
        \<and> (isReloading q \<longrightarrow> isReloading (q\<lparr>health := health q - dmg\<rparr>))"
        unfolding qp using pok False d by (simp add: playerOk_def bounds_def)
    qed
    then show ?thesis unfolding damagePlayer_nonlethal[OF Some False] .
  next
    case True
    let ?fd = "\<lambda>p. p\<lparr>health := 0, isDead := True, deaths := deaths p + 1\<rparr>"
    let ?fk = "\<lambda>p. p\<lparr>kills := kills p + 1\<rparr>"
    let ?s1 = "modPlayer t ?fd s"
    let ?s3 = "emit (EvKill src t) (modPlayer src ?fk ?s1)"
    have 1: "roomOk ?s1"
    proof (rule roomOk_modPlayer[OF ok])
      fix q assume q: "q \<in> set (players s)" "pid q = t"
      have "playerOk q" using ok q(1) by (simp add: roomOk_def)
      then show "pid (?fd q) = pid q \<and> playerOk (?fd q) \<and> weapon (?fd q) = weapon q
        \<and> (isReloading q \<longrightarrow> isReloading (?fd q))"
        by (simp add: playerOk_def bounds_def)
    qed
    have 2: "roomOk (modPlayer src ?fk ?s1)"
    proof (rule roomOk_modPlayer[OF 1])
      fix q assume q: "q \<in> set (players ?s1)" "pid q = src"
      have "playerOk q" using 1 q(1) unfolding roomOk_def by blast
      then show "pid (?fk q) = pid q \<and> playerOk (?fk q) \<and> weapon (?fk q) = weapon q
        \<and> (isReloading q \<longrightarrow> isReloading (?fk q))"
        by (simp add: playerOk_def bounds_def)
    qed
    have 3: "roomOk ?s3" using 2 by simp
    from damagePlayer_lethal_eq[OF Some True, of src] show ?thesis
    proof
      assume e: "damagePlayer t dmg src s = ?s3"
      show ?thesis unfolding e by (rule 3)
    next
      assume "\<exists>w. damagePlayer t dmg src s = endGame w ?s3"
      then obtain w where e: "damagePlayer t dmg src s = endGame w ?s3" ..
      show ?thesis unfolding e by (rule roomOk_endGame[OF 3])
    qed
  qed
qed

lemma fold_inv:
  assumes "\<And>x s. P s \<Longrightarrow> P (f x s)" "P s"
  shows "P (fold f xs s)"
  using assms(2) by (induction xs arbitrary: s) (simp_all add: assms(1))

lemma startReload_timers:
  "getPlayer a s = Some p \<Longrightarrow>
   pendingTimers (startReload a s) = pendingTimers s @ [(nextTimer s, ReloadDone a (weapon p))]
   \<and> reloadTimers (startReload a s) = mapSet a (nextTimer s) (reloadTimers s)
   \<and> inLoadoutPhase (startReload a s) = inLoadoutPhase s"
  by (simp add: startReload_def Let_def)

lemma roomOk_startReload:
  assumes ok: "roomOk s" and p: "getPlayer a s = Some p" "\<not> isReloading p"
  shows "roomOk (startReload a s)"
proof -
  let ?s' = "startReload a s"
  let ?f = "\<lambda>q. q\<lparr>isReloading := True\<rparr>"
  note T = startReload_timers[OF p(1)]
  have pl: "players ?s' = players (modPlayer a ?f s)" by (simp add: startReload_players)
  have gp: "getPlayer b ?s' = (if b = a then map_option ?f (getPlayer b s) else getPlayer b s)" for b
    using getPlayer_modPlayer[of ?f b a s] pl by (simp add: getPlayer_def)
  have ids: "map pid (players ?s') = map pid (players s)"
    unfolding startReload_players by (rule map_pid_map) simp
  have oks: "\<forall>q \<in> set (players ?s'). playerOk q"
    using ok unfolding startReload_players roomOk_def by (auto simp: playerOk_def bounds_def)
  have r: "reloadOk ?s'"
    unfolding reloadOk_def
  proof (intro allI impI)
    fix h b w assume "(h, ReloadDone b w) \<in> set (pendingTimers ?s')"
    then consider (old) "(h, ReloadDone b w) \<in> set (pendingTimers s)"
      | (new) "h = nextTimer s" "b = a" "w = weapon p"
      using T by auto
    then show "map_of (reloadTimers ?s') b = Some h
       \<and> (\<exists>q. getPlayer b ?s' = Some q \<and> weapon q = w \<and> isReloading q)"
    proof cases
      case old
      then obtain q where q: "map_of (reloadTimers s) b = Some h" "getPlayer b s = Some q"
        "weapon q = w" "isReloading q"
        using ok unfolding roomOk_def reloadOk_def by blast
      have ba: "b \<noteq> a" using q(2,4) p by auto
      show ?thesis using q ba T gp by (simp add: map_of_mapSet)
    next
      case new
      then show ?thesis using T gp p(1) by (simp add: map_of_mapSet)
    qed
  qed
  have d: "distinct (map pid (players ?s'))" using ok unfolding ids roomOk_def by blast
  have pj: "\<forall>q \<in> set (projectiles ?s'). 0 \<le> projDamage q"
    using ok unfolding roomOk_def startReload_fields by blast
  have lp: "\<not> inLoadoutPhase ?s' \<longrightarrow> players ?s' = []"
  proof
    assume "\<not> inLoadoutPhase ?s'"
    then have "players s = []" using ok T unfolding roomOk_def by simp
    then show "players ?s' = []" using ids by simp
  qed
  show ?thesis unfolding roomOk_def using d oks pj r lp by blast
qed

lemma roomOk_obstacles:
  "roomOk s \<Longrightarrow> roomOk (damageObstacle k d s)"
  by (rule roomOk_cong) simp_all

lemma roomOk_handleHitscan:
  assumes "roomOk s" "0 \<le> dmg"
  shows "roomOk (handleHitscan a ang dmg rng s)"
proof (cases "getPlayer a s")
  case None
  then show ?thesis using assms by (simp add: handleHitscan_def)
next
  case (Some player)
  define ed where "ed = (if fst (nearestPlayer player ang (fst (nearestObstacle player ang rng s)) s) \<noteq> None
     then snd (nearestPlayer player ang (fst (nearestObstacle player ang rng s)) s)
     else fst (nearestObstacle player ang rng s))"
  define s1 where "s1 = emit (EvHitscan a (posX player) (posY player)
                    (posX player + cos ang * ed) (posY player + sin ang * ed)) s"
  have eq: "handleHitscan a ang dmg rng s =
     (case fst (nearestPlayer player ang (fst (nearestObstacle player ang rng s)) s) of
              Some targetId \<Rightarrow> emit (EvHit targetId dmg a) (damagePlayer targetId dmg a s1)
            | None \<Rightarrow>
               (case snd (nearestObstacle player ang rng s) of
                  None \<Rightarrow> s1
                | Some obsKey \<Rightarrow> if obsKey = [] then s1 else damageObstacle obsKey dmg s1))"
    by (simp only: handleHitscan_def Some option.case Let_def s1_def ed_def)
  have 1: "roomOk s1" using assms(1) by (simp add: s1_def)
  show ?thesis unfolding eq
    using 1 roomOk_damagePlayer[OF 1 assms(2)] roomOk_obstacles[OF 1]
    by (simp split: option.split)
qed

lemma roomOk_tryShoot:
  assumes ok: "roomOk s"
  shows "roomOk (tryShoot now rnd a s)"
proof (cases "getPlayer a s")
  case None
  then show ?thesis using ok by (simp add: tryShoot_def)
next
  case (Some player)
  define ws where "ws = WEAPON_STATS (weapon player)"
  define s1 where "s1 = s\<lparr>lastShotTime := (lastShotTime s)(a \<mapsto> now)\<rparr>"
  define s2 where "s2 = modPlayer a (\<lambda>p. p\<lparr>ammo := ammo p - 1\<rparr>) s1"
  define s3 where "s3 = (if ammo player - 1 \<le> 0 then startReload a s2 else s2)"
  define ang where "ang = angle player + (rnd - 1 / 2) * spread ws"
  define pr where "pr = \<lparr>projId = projectileIdCounter s3, ownerId = a,
                             projX = posX player + cos ang * (PLAYER_RADIUS + 5),
                             projY = posY player + sin ang * (PLAYER_RADIUS + 5),
                             projZ = posZ player, projAngle = ang,
                             projSpeed = projectileSpeed ws,
                             projDamage = damage ws,
                             projType = weapon player, projArena = currentArena player,
                             createdAt = now\<rparr>"
  define s4 where "s4 = s3\<lparr>projectiles := projectiles s3 @ [pr],
                         projectileIdCounter := Suc (projectileIdCounter s3)\<rparr>"
  have X: "tryShoot now rnd a s =
      (if ammo player \<le> 0 \<or> isReloading player then s
       else if now - (case lastShotTime s a of None \<Rightarrow> 0 | Some t \<Rightarrow> t) < 1000 / fireRate ws then s
       else if length (filter (\<lambda>q. ownerId q = a) (projectiles s)) \<ge> MAX_PROJECTILES_PER_PLAYER then s
       else if isHitscan ws then handleHitscan a ang (damage ws) (range ws) s3 else s4)"
    by (simp only: tryShoot_def Some option.case Let_def s4_def pr_def ang_def s3_def s2_def s1_def ws_def)
  show ?thesis
  proof (cases "ammo player \<le> 0 \<or> isReloading player")
    case True
    then show ?thesis unfolding X using ok by simp
  next
    case False
    have 1: "roomOk s1" by (rule roomOk_cong[OF ok]) (simp_all add: s1_def)
    have g1: "getPlayer a s1 = Some player" using Some by (simp add: getPlayer_def s1_def)
    have 2: "roomOk s2" unfolding s2_def
    proof (rule roomOk_modPlayer[OF 1])
      fix q assume q: "q \<in> set (players s1)" "pid q = a"
      have qp: "q = player" by (rule roomOk_unique[OF 1 g1 q])
      have "playerOk player" by (rule roomOk_playerOk[OF ok Some])
      then show "pid (q\<lparr>ammo := ammo q - 1\<rparr>) = pid q \<and> playerOk (q\<lparr>ammo := ammo q - 1\<rparr>)
         \<and> weapon (q\<lparr>ammo := ammo q - 1\<rparr>) = weapon q
         \<and> (isReloading q \<longrightarrow> isReloading (q\<lparr>ammo := ammo q - 1\<rparr>))"
        unfolding qp using False by (simp add: playerOk_def bounds_def)
    qed
    have g2: "getPlayer a s2 = Some (player\<lparr>ammo := ammo player - 1\<rparr>)"
      unfolding s2_def using getPlayer_modPlayer[of "\<lambda>p. p\<lparr>ammo := ammo p - 1\<rparr>" a a s1] g1 by simp
    have 3: "roomOk s3" unfolding s3_def
      using 2 roomOk_startReload[OF 2 g2] False by simp
    have 4: "roomOk s4"
      using 3 weapon_nonneg(1)[of "weapon player"]
      unfolding roomOk_def reloadOk_def getPlayer_def s4_def by (simp add: pr_def ws_def)
    have 5: "roomOk (handleHitscan a ang (damage ws) (range ws) s3)"
      by (rule roomOk_handleHitscan[OF 3]) (simp add: ws_def weapon_nonneg)
    show ?thesis unfolding X using ok 4 5 by simp
  qed
qed

lemma roomOk_updatePlayer:
  assumes "roomOk s"
  shows "roomOk (updatePlayer now rnd a inp s)"
proof -
  have 1: "roomOk (modPlayer a (\<lambda>p. movePlayer p inp) s)"
  proof (rule roomOk_modPlayer[OF assms])
    fix q assume "q \<in> set (players s)" "pid q = a"
    then have "playerOk q" using assms by (simp add: roomOk_def)
    then show "pid (movePlayer q inp) = pid q \<and> playerOk (movePlayer q inp)
      \<and> weapon (movePlayer q inp) = weapon q \<and> (isReloading q \<longrightarrow> isReloading (movePlayer q inp))"
      by (simp add: movePlayer_ok)
  qed
  show ?thesis unfolding updatePlayer_def Let_def using 1 roomOk_tryShoot[OF 1] by simp
qed

lemma roomOk_updateOne: "roomOk s \<Longrightarrow> roomOk (updateOne now rnd k s)"
  by (simp add: updateOne_def roomOk_updatePlayer split: option.split)

lemma projectileStep_fields [simp]:
  "pendingTimers (projectileStep now k s) = pendingTimers s"
  "reloadTimers (projectileStep now k s) = reloadTimers s"
  "inLoadoutPhase (projectileStep now k s) = inLoadoutPhase s"
  by (simp_all add: projectileStep_def Let_def split: option.split)

lemma projectileStep_damage:
  assumes "\<forall>q \<in> set (projectiles s). 0 \<le> projDamage q"
  shows "\<forall>q \<in> set (projectiles (projectileStep now k s)). 0 \<le> projDamage q"
proof (cases "getProjectile k s")
  case None
  then show ?thesis using assms by (simp add: projectileStep_def)
next
  case (Some proj0)
  let ?proj = "proj0\<lparr>projX := projX proj0 + cos (projAngle proj0) * projSpeed proj0,
                      projY := projY proj0 + sin (projAngle proj0) * projSpeed proj0\<rparr>"
  let ?ps = "map (\<lambda>q. if projId q = k then ?proj else q) (projectiles s)"
  have 0: "0 \<le> projDamage proj0" using getProjectile_SomeD[OF Some] assms by blast
  have 1: "\<forall>q \<in> set ?ps. 0 \<le> projDamage q" using 0 assms by auto
  have 2: "set (projectiles (projectileStep now k s)) \<subseteq> set ?ps"
    using Some by (auto simp: projectileStep_def Let_def split: option.splits if_splits)
  show ?thesis using 1 2 by blast
qed

lemma roomOk_projectileStep: "roomOk s \<Longrightarrow> roomOk (projectileStep now k s)"
  using projectileStep_damage[of s now k]
  unfolding roomOk_def reloadOk_def getPlayer_def by simp

lemma roomOk_deleteProjectile: "roomOk s \<Longrightarrow> roomOk (deleteProjectile k s)"
  unfolding roomOk_def reloadOk_def getPlayer_def by simp

lemma roomOk_collisionStep:
  assumes "roomOk s"
  shows "roomOk (collisionStep k s)"
proof (cases "getProjectile k s")
  case None
  then show ?thesis using assms by (simp add: collisionStep_def)
next
  case (Some proj)
  have d: "0 \<le> projDamage proj" using getProjectile_SomeD[OF Some] assms unfolding roomOk_def by blast
  show ?thesis
    using assms roomOk_damagePlayer[OF assms d] Some
    by (simp add: collisionStep_def roomOk_deleteProjectile split: option.split)
qed

lemma roomOk_update: "roomOk s \<Longrightarrow> roomOk (update now rnd s)"
  unfolding update_def checkCollisions_def updateProjectiles_def
  by (intro fold_inv[where P=roomOk] roomOk_collisionStep roomOk_projectileStep roomOk_updateOne)

lemma roomOk_gameTick: "roomOk s \<Longrightarrow> roomOk (gameTick now rnd s)"
proof -
  assume ok: "roomOk s"
  have "roomOk ((broadcastState now (update now rnd s))\<lparr>tick := tick (broadcastState now (update now rnd s)) + 1\<rparr>)"
    by (rule roomOk_cong[OF roomOk_update[OF ok]]) (simp_all add: broadcastState_def)
  then show ?thesis using ok by (simp add: gameTick_def Let_def)
qed

lemma roomOk_handleInput: "roomOk s \<Longrightarrow> roomOk (handleInput a i s)"
  by (rule roomOk_cong) (simp_all add: handleInput_def)

lemma roomOk_manualReload: "roomOk s \<Longrightarrow> roomOk (manualReload a s)"
  by (auto simp: manualReload_def roomOk_startReload split: option.split)

lemma cancelTimer_pending:
  "set (pendingTimers (cancelTimer a ts s)) \<subseteq> set (pendingTimers s)"
  by (auto simp: cancelTimer_def clearTimeout_def split: option.split)

lemma cancelTimer_more [simp]:
  "nextTimer (cancelTimer a ts s) = nextTimer s" "lobbyPlayers (cancelTimer a ts s) = lobbyPlayers s"
  by (simp_all add: cancelTimer_def clearTimeout_def split: option.split)

lemma reload_entries_gone:
  assumes "roomOk s" "(h, ReloadDone a w) \<in> set (pendingTimers (cancelTimer a (reloadTimers s) s))"
  shows False
proof -
  have i: "(h, ReloadDone a w) \<in> set (pendingTimers s)"
    using assms(2) cancelTimer_pending by blast
  then have m: "map_of (reloadTimers s) a = Some h"
    using assms(1) unfolding roomOk_def reloadOk_def by blast
  then show False using assms(2) by (simp add: cancelTimer_def clearTimeout_def)
qed

text \<open>
  The room after an operation that replaces the players by \<open>ps'\<close>, touching only the
  player \<open>a\<close>, and leaves no pending reload timer of \<open>a\<close>.
\<close>

lemma roomOk_drop_reload:
  assumes ok: "roomOk s"
    and ps: "distinct (map pid (players s'))" "\<forall>p \<in> set (players s'). playerOk p"
      "\<And>b. b \<noteq> a \<Longrightarrow> getPlayer b s' = getPlayer b s"
      "players s = [] \<Longrightarrow> players s' = []"
    and pj: "set (projectiles s') \<subseteq> set (projectiles s)"
    and pt: "\<And>h b w. (h, ReloadDone b w) \<in> set (pendingTimers s') \<Longrightarrow>
               (h, ReloadDone b w) \<in> set (pendingTimers s) \<and> b \<noteq> a"
    and rt: "reloadTimers s' = mapDelete a (reloadTimers s)"
    and lp: "inLoadoutPhase s' = inLoadoutPhase s"
  shows "roomOk s'"
proof -
  have r: "reloadOk s'"
    unfolding reloadOk_def
  proof (intro allI impI)
    fix h b w assume e: "(h, ReloadDone b w) \<in> set (pendingTimers s')"
    from pt[OF e] have i: "(h, ReloadDone b w) \<in> set (pendingTimers s)" and ba: "b \<noteq> a" by simp_all
    from ok i obtain q where q: "map_of (reloadTimers s) b = Some h" "getPlayer b s = Some q"
        "weapon q = w" "isReloading q"
      unfolding roomOk_def reloadOk_def by blast
    show "map_of (reloadTimers s') b = Some h
       \<and> (\<exists>p. getPlayer b s' = Some p \<and> weapon p = w \<and> isReloading p)"
      using q ba ps(3)[OF ba] by (simp add: rt map_of_mapDelete)
  qed
  have "\<forall>q \<in> set (projectiles s'). 0 \<le> projDamage q"
    using ok pj unfolding roomOk_def by blast
  moreover have "\<not> inLoadoutPhase s' \<longrightarrow> players s' = []"
    using ok ps(4) lp unfolding roomOk_def by blast
  ultimately show ?thesis unfolding roomOk_def using ps(1,2) r by blast
qed

lemma roomOk_reset:
  assumes ok: "roomOk s"
    and f: "\<And>q. q \<in> set (players s) \<Longrightarrow> pid q = a \<Longrightarrow> pid (f q) = pid q \<and> playerOk (f q)"
    and s': "players s' = map (\<lambda>q. if pid q = a then f q else q) (players s)"
      "projectiles s' = projectiles s"
      "set (pendingTimers s') \<subseteq> set (pendingTimers (cancelTimer a (reloadTimers s) s))"
      "reloadTimers s' = mapDelete a (reloadTimers s)"
      "inLoadoutPhase s' = inLoadoutPhase s"
  shows "roomOk s'"
proof (rule roomOk_drop_reload[OF ok, where a=a])
  let ?g = "\<lambda>q. if pid q = a then f q else q"
  have g: "pid (?g q) = pid q" if "q \<in> set (players s)" for q using f[OF that] by simp
  have ids: "map pid (map ?g (players s)) = map pid (players s)"
    using g by (induction "players s") (simp_all add: g)
  show "distinct (map pid (players s'))" unfolding s'(1) ids using ok unfolding roomOk_def by blast
  show "\<forall>p \<in> set (players s'). playerOk p"
    using ok f unfolding s'(1) roomOk_def by auto
  show "getPlayer b s' = getPlayer b s" if "b \<noteq> a" for b
  proof -
    have "find (\<lambda>q. pid q = b) (map ?g ps) = find (\<lambda>q. pid q = b) ps"
      if "\<And>q. q \<in> set ps \<Longrightarrow> pid (?g q) = pid q" for ps
      using that \<open>b \<noteq> a\<close> by (induction ps) auto
    then show ?thesis unfolding getPlayer_def s'(1) using g by blast
  qed
  show "players s = [] \<Longrightarrow> players s' = []" by (simp add: s'(1))
  show "set (projectiles s') \<subseteq> set (projectiles s)" by (simp add: s'(2))
  show "(h, ReloadDone b w) \<in> set (pendingTimers s) \<and> b \<noteq> a"
    if "(h, ReloadDone b w) \<in> set (pendingTimers s')" for h b w
  proof -
    have i: "(h, ReloadDone b w) \<in> set (pendingTimers (cancelTimer a (reloadTimers s) s))"
      using that s'(3) by blast
    then have "b \<noteq> a" using reload_entries_gone[OF ok] by blast
    then show ?thesis using i cancelTimer_pending by blast
  qed
  show "reloadTimers s' = mapDelete a (reloadTimers s)" by (rule s'(4))
  show "inLoadoutPhase s' = inLoadoutPhase s" by (rule s'(5))
qed

lemma grantSpawnProtection_pending:
  "(h, ReloadDone b w) \<in> set (pendingTimers (grantSpawnProtection a s)) \<Longrightarrow>
   (h, ReloadDone b w) \<in> set (pendingTimers s)"
  by (auto simp: grantSpawnProtection_def Let_def setTimeout_def cancelTimer_def clearTimeout_def
      split: option.splits)

lemma roomOk_grantSpawnProtection:
  assumes "roomOk s"
  shows "roomOk (grantSpawnProtection a s)"
proof (rule roomOk_map[OF assms, where g="\<lambda>p::PlayerState. if pid p = a then p\<lparr>isInSpawn := True\<rparr> else p"])
  fix q assume "q \<in> set (players s)"
  then have "playerOk q" using assms by (simp add: roomOk_def)
  then show "pid (if pid q = a then q\<lparr>isInSpawn := True\<rparr> else q) = pid q
     \<and> playerOk (if pid q = a then q\<lparr>isInSpawn := True\<rparr> else q)
     \<and> weapon (if pid q = a then q\<lparr>isInSpawn := True\<rparr> else q) = weapon q
     \<and> (isReloading q \<longrightarrow> isReloading (if pid q = a then q\<lparr>isInSpawn := True\<rparr> else q))"
    by (simp add: playerOk_def bounds_def)
qed (simp_all add: grantSpawnProtection_pending)

lemma cancelTimer_modPlayer_pending:
  "pendingTimers (cancelTimer a ts (modPlayer b f s)) = pendingTimers (cancelTimer a ts s)"
  by (simp add: cancelTimer_def clearTimeout_def split: option.split)

lemma roomOk_respawnPlayer:
  assumes ok: "roomOk s"
  shows "roomOk (respawnPlayer a s)"
proof (cases "getPlayer a s")
  case None
  then show ?thesis using ok by (simp add: respawnPlayer_def)
next
  case (Some player)
  show ?thesis
  proof (cases "isDead player")
    case False
    then show ?thesis using ok Some by (simp add: respawnPlayer_def)
  next
    case True
    define sp where "sp = spawnPoints (ARENAS CENTER) ! (indexOf a (map pid (players s))
        mod length (spawnPoints (ARENAS CENTER)))"
    define f where "f = (\<lambda>p::PlayerState. p\<lparr>posX := fst sp, posY := snd sp,
                      posZ := DEFAULT_Z, velocityX := 0, velocityY := 0, velocityZ := 0,
                      health := MAX_HEALTH, fuel := maxFuel p, currentArena := CENTER,
                      isDead := False, ammo := clipSize (WEAPON_STATS (weapon p)),
                      isReloading := False\<rparr>)"
    define s2 where "s2 = (cancelTimer a (reloadTimers (modPlayer a f s)) (modPlayer a f s))
                      \<lparr>reloadTimers := mapDelete a (reloadTimers (modPlayer a f s))\<rparr>"
    have eq: "respawnPlayer a s = grantSpawnProtection a s2"
      using Some True by (simp add: respawnPlayer_def Let_def s2_def f_def sp_def)
    have 2: "roomOk s2"
    proof (rule roomOk_reset[OF ok, where f=f and a=a])
      fix q assume "q \<in> set (players s)" "pid q = a"
      then have "playerOk q" using ok by (simp add: roomOk_def)
      then show "pid (f q) = pid q \<and> playerOk (f q)"
        using stats_nonneg(3)[of "movement q"] weapon_nonneg(2)[of "weapon q"]
        by (simp add: f_def playerOk_def bounds_def)
    qed (simp_all add: s2_def cancelTimer_modPlayer_pending)
    show ?thesis unfolding eq by (rule roomOk_grantSpawnProtection[OF 2])
  qed
qed

lemma roomOk_setPlayerLoadout:
  assumes ok: "roomOk s"
  shows "roomOk (setPlayerLoadout a mv wp s)"
proof -
  define s1 where "s1 = s\<lparr>lobbyPlayers := map (\<lambda>lp. if lobbyId lp = a
                    then lp\<lparr>lobbyMovement := mv, lobbyWeapon := wp\<rparr> else lp) (lobbyPlayers s)\<rparr>"
  define f where "f = (\<lambda>p::PlayerState. p\<lparr>movement := mv, weapon := wp,
                       maxFuel := fuelCapacity (MOVEMENT_STATS mv),
                       fuel := fuelCapacity (MOVEMENT_STATS mv),
                       ammo := clipSize (WEAPON_STATS wp), isReloading := False\<rparr>)"
  define s3 where "s3 = (cancelTimer a (reloadTimers (modPlayer a f s1)) (modPlayer a f s1))
                 \<lparr>reloadTimers := mapDelete a (reloadTimers (modPlayer a f s1))\<rparr>"
  have 1: "roomOk s1" by (rule roomOk_cong[OF ok]) (simp_all add: s1_def)
  have g: "getPlayer a s1 = getPlayer a s" by (simp add: getPlayer_def s1_def)
  have eq: "setPlayerLoadout a mv wp s = (case getPlayer a s of None \<Rightarrow> s1 | Some player \<Rightarrow> s3)"
    by (cases "getPlayer a s")
      (simp_all add: setPlayerLoadout_def Let_def s1_def[symmetric] g f_def[symmetric] s3_def)
  have 3: "roomOk s3"
  proof (rule roomOk_reset[OF 1, where f=f and a=a])
    fix q assume "q \<in> set (players s1)" "pid q = a"
    then have "playerOk q" using 1 by (simp add: roomOk_def)
    then show "pid (f q) = pid q \<and> playerOk (f q)"
      using stats_nonneg(3)[of mv] weapon_nonneg(2)[of wp]
      by (simp add: f_def playerOk_def bounds_def)
  qed (simp_all add: s3_def cancelTimer_modPlayer_pending)
  show ?thesis unfolding eq using 1 3 by (simp split: option.split)
qed

lemma roomOk_clearTimeout: "roomOk s \<Longrightarrow> roomOk (clearTimeout h s)"
  by (rule roomOk_less_timers[where s=s]) (auto simp: clearTimeout_def)

lemma cancelTimer_pending_cong:
  "pendingTimers s1 = pendingTimers s \<Longrightarrow>
   pendingTimers (cancelTimer a ts s1) = pendingTimers (cancelTimer a ts s)"
  by (simp add: cancelTimer_def clearTimeout_def split: option.split)

lemma find_filter_other:
  "b \<noteq> a \<Longrightarrow> find (\<lambda>q. pid q = b) (filter (\<lambda>p. pid p \<noteq> a) ps) = find (\<lambda>q. pid q = b) ps"
  by (induction ps) auto

lemma removePlayer_players: "players (removePlayer a s) = filter (\<lambda>p. pid p \<noteq> a) (players s)"
  by (simp add: removePlayer_def Let_def)

lemma removePlayer_same:
  "projectiles (removePlayer a s) = projectiles s"
  "reloadTimers (removePlayer a s) = mapDelete a (reloadTimers s)"
  "inLoadoutPhase (removePlayer a s) = inLoadoutPhase s"
  by (simp_all add: removePlayer_def Let_def)

lemma removePlayer_pending:
  "set (pendingTimers (removePlayer a s)) \<subseteq> set (pendingTimers (cancelTimer a (reloadTimers s) s))"
proof -
  define s1 where "s1 = s\<lparr>lobbyPlayers := filter (\<lambda>lp. lobbyId lp \<noteq> a) (lobbyPlayers s),
                players := filter (\<lambda>p. pid p \<noteq> a) (players s),
                playerInputs := (playerInputs s)(a := None)\<rparr>"
  define s2 where "s2 = (cancelTimer a (reloadTimers s1) s1)
                \<lparr>reloadTimers := mapDelete a (reloadTimers s1)\<rparr>"
  have 1: "pendingTimers (removePlayer a s) = pendingTimers (cancelTimer a (spawnProtectionTimers s1) s2)"
    by (simp add: removePlayer_def Let_def s1_def[symmetric] s2_def[symmetric])
  have "pendingTimers s1 = pendingTimers s" "reloadTimers s1 = reloadTimers s"
    by (simp_all add: s1_def)
  then have 2: "pendingTimers s2 = pendingTimers (cancelTimer a (reloadTimers s) s)"
    unfolding s2_def using cancelTimer_pending_cong[of s1 s a "reloadTimers s"] by simp
  show ?thesis unfolding 1 using cancelTimer_pending[of a "spawnProtectionTimers s1" s2]
    unfolding 2 .
qed

lemma roomOk_removePlayer:
  assumes ok: "roomOk s"
  shows "roomOk (removePlayer a s)"
proof (rule roomOk_drop_reload[OF ok, where a=a])
  note ps = removePlayer_players
  show "distinct (map pid (players (removePlayer a s)))"
    unfolding ps using ok by (simp add: roomOk_def distinct_map_filter)
  show "\<forall>p \<in> set (players (removePlayer a s)). playerOk p"
    unfolding ps using ok by (simp add: roomOk_def)
  show "getPlayer b (removePlayer a s) = getPlayer b s" if "b \<noteq> a" for b
    unfolding getPlayer_def ps by (rule find_filter_other[OF that])
  show "players s = [] \<Longrightarrow> players (removePlayer a s) = []" by (simp add: ps)
  show "set (projectiles (removePlayer a s)) \<subseteq> set (projectiles s)"
    by (simp add: removePlayer_same)
  show "(h, ReloadDone b w) \<in> set (pendingTimers s) \<and> b \<noteq> a"
    if "(h, ReloadDone b w) \<in> set (pendingTimers (removePlayer a s))" for h b w
  proof -
    have i: "(h, ReloadDone b w) \<in> set (pendingTimers (cancelTimer a (reloadTimers s) s))"
      using that removePlayer_pending by blast
    then have "b \<noteq> a" using reload_entries_gone[OF ok] by blast
    then show ?thesis using i cancelTimer_pending by blast
  qed
  show "reloadTimers (removePlayer a s) = mapDelete a (reloadTimers s)"
    by (rule removePlayer_same)
  show "inLoadoutPhase (removePlayer a s) = inLoadoutPhase s"
    by (rule removePlayer_same)
qed

lemma roomOk_runCallback_reload:
  assumes ok: "roomOk s" and m: "map_of (pendingTimers s) h = Some (ReloadDone a w)"
  shows "roomOk (runCallback (ReloadDone a w) (clearTimeout h s))"
proof -
  have i: "(h, ReloadDone a w) \<in> set (pendingTimers s)" using m by (rule map_of_SomeD)
  with ok obtain p where p: "map_of (reloadTimers s) a = Some h" "getPlayer a s = Some p"
      "weapon p = w" "isReloading p"
    unfolding roomOk_def reloadOk_def by blast
  have 0: "roomOk (clearTimeout h s)" by (rule roomOk_clearTimeout[OF ok])
  have g: "getPlayer a (clearTimeout h s) = Some p"
    using p(2) by (simp add: getPlayer_def)
  show ?thesis
  proof (cases "isDead p")
    case True
    then show ?thesis using 0 g by simp
  next
    case False
    define f where "f = (\<lambda>q::PlayerState. q\<lparr>isReloading := False, ammo := clipSize (WEAPON_STATS w)\<rparr>)"
    have eq: "runCallback (ReloadDone a w) (clearTimeout h s) =
        (modPlayer a f (clearTimeout h s))\<lparr>reloadTimers := mapDelete a (reloadTimers (clearTimeout h s))\<rparr>"
      using False g by (simp add: f_def)
    have c: "cancelTimer a (reloadTimers s) s = clearTimeout h s"
      by (simp add: cancelTimer_def p(1))
    show ?thesis unfolding eq
    proof (rule roomOk_reset[OF ok, where f=f and a=a])
      fix q assume q: "q \<in> set (players s)" "pid q = a"
      have qp: "q = p" by (rule roomOk_unique[OF ok p(2) q])
      have "playerOk p" by (rule roomOk_playerOk[OF ok p(2)])
      then show "pid (f q) = pid q \<and> playerOk (f q)"
        using p(3) weapon_nonneg(2)[of w] unfolding qp by (simp add: f_def playerOk_def bounds_def)
    next
      show "set (pendingTimers (modPlayer a f (clearTimeout h s)
          \<lparr>reloadTimers := mapDelete a (reloadTimers (clearTimeout h s))\<rparr>))
        \<subseteq> set (pendingTimers (cancelTimer a (reloadTimers s) s))"
        unfolding c by simp
    qed simp_all
  qed
qed

lemma roomOk_fireTimer:
  assumes ok: "roomOk s"
  shows "roomOk (fireTimer h s)"
proof (cases "map_of (pendingTimers s) h")
  case None
  then show ?thesis using ok by (simp add: fireTimer_def)
next
  case (Some cb)
  have eq: "fireTimer h s = runCallback cb (clearTimeout h s)" by (simp add: fireTimer_def Some)
  show ?thesis
  proof (cases cb)
    case (ReloadDone a w)
    show ?thesis unfolding eq ReloadDone
      by (rule roomOk_runCallback_reload[OF ok Some[unfolded ReloadDone]])
  next
    case (SpawnProtectionOver a)
    have 0: "roomOk (clearTimeout h s)" by (rule roomOk_clearTimeout[OF ok])
    have "roomOk (modPlayer a (\<lambda>p. p\<lparr>isInSpawn := False\<rparr>) (clearTimeout h s))"
    proof (rule roomOk_modPlayer[OF 0])
      fix q assume "q \<in> set (players (clearTimeout h s))"
      then have "playerOk q" using 0 unfolding roomOk_def by blast
      then show "pid (q\<lparr>isInSpawn := False\<rparr>) = pid q \<and> playerOk (q\<lparr>isInSpawn := False\<rparr>)
         \<and> weapon (q\<lparr>isInSpawn := False\<rparr>) = weapon q
         \<and> (isReloading q \<longrightarrow> isReloading (q\<lparr>isInSpawn := False\<rparr>))"
        by (simp add: playerOk_def bounds_def)
    qed
    then show ?thesis unfolding eq SpawnProtectionOver runCallback.simps
      by (rule roomOk_cong) simp_all
  next
    case RoomInfoBroadcast
    show ?thesis unfolding eq RoomInfoBroadcast using roomOk_clearTimeout[OF ok] by simp
  qed
qed

lemma roomOk_startGameLoop: "roomOk s \<Longrightarrow> roomOk (startGameLoop s)"
proof -
  assume ok: "roomOk s"
  have "roomOk (fold grantSpawnProtection (map pid (players s)) s)"
    by (rule fold_inv[where P=roomOk, OF roomOk_grantSpawnProtection ok])
  then show ?thesis
    unfolding startGameLoop_def by (rule roomOk_cong) simp_all
qed

lemma playerOk_newPlayer: "playerOk (newPlayer i lp)"
  using stats_nonneg(3)[of "lobbyMovement lp"] weapon_nonneg(2)[of "lobbyWeapon lp"]
  by (simp add: newPlayer_def Let_def playerOk_def bounds_def)

lemma setPlayer_ok:
  assumes "distinct (map pid ps) \<and> (\<forall>q \<in> set ps. playerOk q)" "playerOk p"
  shows "distinct (map pid (setPlayer p ps)) \<and> (\<forall>q \<in> set (setPlayer p ps). playerOk q)"
proof (cases "pid p \<in> pid ` set ps")
  case True
  have ids: "map pid (map (\<lambda>q. if pid q = pid p then p else q) ps) = map pid ps"
    by (induction ps) simp_all
  have eq: "setPlayer p ps = map (\<lambda>q. if pid q = pid p then p else q) ps"
    using True by (simp add: setPlayer_def)
  have "distinct (map pid (setPlayer p ps))" unfolding eq ids using assms(1) by blast
  moreover have "\<forall>q \<in> set (setPlayer p ps). playerOk q"
    unfolding eq using assms by auto
  ultimately show ?thesis by blast
next
  case False
  then show ?thesis using assms by (auto simp: setPlayer_def)
qed

lemma initializePlayers_ok:
  "distinct (map pid ps) \<and> (\<forall>q \<in> set ps. playerOk q) \<Longrightarrow>
   distinct (map pid (fold (\<lambda>(i, lp). setPlayer (newPlayer i lp)) xs ps))
   \<and> (\<forall>q \<in> set (fold (\<lambda>(i, lp). setPlayer (newPlayer i lp)) xs ps). playerOk q)"
proof (induction xs arbitrary: ps)
  case Nil
  then show ?case by simp
next
  case (Cons x xs)
  obtain i lp where x: "x = (i, lp)" by (cases x)
  have "distinct (map pid (setPlayer (newPlayer i lp) ps))
      \<and> (\<forall>q \<in> set (setPlayer (newPlayer i lp) ps). playerOk q)"
    by (rule setPlayer_ok[OF Cons.prems playerOk_newPlayer])
  from Cons.IH[OF this] show ?case by (simp add: x)
qed

lemma roomOk_initializePlayers:
  assumes ok: "roomOk s" and e: "players s = []"
  shows "roomOk (initializePlayers (s\<lparr>inLoadoutPhase := True, lobbyPlayers := lps\<rparr>))"
proof -
  let ?s' = "initializePlayers (s\<lparr>inLoadoutPhase := True, lobbyPlayers := lps\<rparr>)"
  have ps: "players ?s' = fold (\<lambda>(i, lp). setPlayer (newPlayer i lp)) (zip [0 ..< length lps] lps) []"
    by (simp add: initializePlayers_def e)
  have 1: "distinct (map pid (players ?s')) \<and> (\<forall>q \<in> set (players ?s'). playerOk q)"
    unfolding ps by (rule initializePlayers_ok) simp
  have none: "(h, ReloadDone a w) \<notin> set (pendingTimers s)" for h a w
    using ok e unfolding roomOk_def reloadOk_def getPlayer_def by auto
  have 2: "reloadOk ?s'"
    unfolding reloadOk_def using none by (simp add: initializePlayers_def)
  have 3: "\<forall>q \<in> set (projectiles ?s'). 0 \<le> projDamage q"
    using ok by (simp add: initializePlayers_def roomOk_def)
  have 4: "inLoadoutPhase ?s'" by (simp add: initializePlayers_def)
  show ?thesis unfolding roomOk_def using 1 2 3 4 by blast
qed

lemma roomOk_startGame:
  assumes ok: "roomOk s"
  shows "roomOk (startGame s)"
proof (cases "gameStarted s \<or> inLoadoutPhase s \<or> \<not> list_all ready (lobbyPlayers s)
    \<or> length (lobbyPlayers s) < 2")
  case True
  then have "startGame s = s" by (auto simp: startGame_def)
  then show ?thesis using ok by simp
next
  case False
  then have e: "players s = []" using ok unfolding roomOk_def by blast
  have "startGame s = emit EvRoomUpdated (emit EvLoadoutPhase (initializePlayers
            (s\<lparr>inLoadoutPhase := True,
               lobbyPlayers := map (\<lambda>lp. lp\<lparr>loadoutReady := False\<rparr>) (lobbyPlayers s)\<rparr>)))"
    using False by (simp add: startGame_def)
  then show ?thesis using roomOk_initializePlayers[OF ok e] by simp
qed

lemma roomOk_newRoom: "roomOk (newRoom roster)"
  by (simp add: roomOk_def reloadOk_def newRoom_def)

lemma roomOk_step: "roomOk s \<Longrightarrow> roomOk (step ev s)"
proof (cases ev)
  case StartGame
  assume "roomOk s" then show ?thesis unfolding StartGame step.simps by (rule roomOk_startGame)
next
  case StartGameLoop
  assume "roomOk s" then show ?thesis unfolding StartGameLoop step.simps by (rule roomOk_startGameLoop)
next
  case (Tick now rnd)
  assume "roomOk s" then show ?thesis unfolding Tick step.simps by (rule roomOk_gameTick)
next
  case (Input a i)
  assume "roomOk s" then show ?thesis unfolding Input step.simps by (rule roomOk_handleInput)
next
  case (Respawn a)
  assume "roomOk s" then show ?thesis unfolding Respawn step.simps by (rule roomOk_respawnPlayer)
next
  case (Reload a)
  assume "roomOk s" then show ?thesis unfolding Reload step.simps by (rule roomOk_manualReload)
next
  case (Loadout a mv wp)
  assume "roomOk s" then show ?thesis unfolding Loadout step.simps by (rule roomOk_setPlayerLoadout)
next
  case (Timer h)
  assume "roomOk s" then show ?thesis unfolding Timer step.simps by (rule roomOk_fireTimer)
next
  case (Leave a)
  assume "roomOk s" then show ?thesis unfolding Leave step.simps by (rule roomOk_removePlayer)
qed

lemma roomOk_run: "roomOk s \<Longrightarrow> roomOk (run evs s)"
  unfolding run_def by (rule fold_inv[where P=roomOk, OF roomOk_step])

lemma started_players:
  "players (run [StartGame, StartGameLoop] (newRoom exRoster)) =
    [exSpawned, (newPlayer 1 (rosterOf ((exPlayer ''b'')\<lparr>weapon := SNIPER\<rparr>)))\<lparr>isInSpawn := True\<rparr>]"
  by (simp add: run_def startGame_def startGameLoop_def newRoom_def exRoster_def rosterOf_def
      exJet_def exPlayer_def initializePlayers_def setPlayer_def newPlayer_def Let_def exSpawned_def
      upt_rec)

subsection \<open>A dead Combatant between its death and its respawn\<close>

lemma find_map_other:
  assumes "b \<noteq> a" "\<And>q. pid (f q) = pid q"
  shows "find (\<lambda>q. pid q = a) (map (\<lambda>q. if pid q = b then f q else q) ps)
     = find (\<lambda>q. pid q = a) ps"
  using assms by (induction ps) auto

lemma stillDead_same: "stillDead a p s \<Longrightarrow> players s' = players s \<Longrightarrow> stillDead a p s'"
  by (simp add: stillDead_def getPlayer_def)

lemma stillDead_map:
  assumes d: "stillDead a p s" and s': "players s' = map g (players s)"
    and g: "\<And>q. pid (g q) = pid q"
      "\<And>q. pid q = a \<Longrightarrow> isDead (g q) = isDead q \<and> ammo (g q) = ammo q
          \<and> isReloading (g q) = isReloading q"
  shows "stillDead a p s'"
proof -
  from d obtain q where q: "getPlayer a s = Some q" "isDead q" "ammo q = ammo p"
      "isReloading q = isReloading p"
    by (auto simp: stillDead_def split: option.splits)
  have "pid q = a" using getPlayer_SomeD[OF q(1)] by simp
  moreover have "getPlayer a s' = Some (g q)"
    using q(1) find_map_pid[of g a "players s", OF g(1)] by (simp add: getPlayer_def s')
  ultimately show ?thesis using q g(2)[of q] by (simp add: stillDead_def)
qed

lemma stillDead_other:
  assumes "stillDead a p s" "getPlayer a s' = getPlayer a s"
  shows "stillDead a p s'"
  using assms by (simp add: stillDead_def)

lemma stillDead_grantSpawnProtection:
  "stillDead a p s \<Longrightarrow> stillDead a p (grantSpawnProtection b s)"
  by (rule stillDead_map[where g="\<lambda>q. if pid q = b then q\<lparr>isInSpawn := True\<rparr> else q"]) simp_all

lemma getPlayer_grantSpawnProtection:
  "b \<noteq> a \<Longrightarrow> getPlayer a (grantSpawnProtection b s) = getPlayer a s"
  by (simp add: getPlayer_def find_map_other)

lemma getPlayer_respawnPlayer:
  "b \<noteq> a \<Longrightarrow> getPlayer a (respawnPlayer b s) = getPlayer a s"
  by (simp add: respawnPlayer_def Let_def getPlayer_grantSpawnProtection split: option.split)
     (simp add: getPlayer_def find_map_other)

lemma getPlayer_setPlayerLoadout:
  "b \<noteq> a \<Longrightarrow> getPlayer a (setPlayerLoadout b mv wp s) = getPlayer a s"
  by (simp add: setPlayerLoadout_def Let_def getPlayer_def find_map_other split: option.split)

lemma getPlayer_removePlayer:
  "b \<noteq> a \<Longrightarrow> getPlayer a (removePlayer b s) = getPlayer a s"
  unfolding getPlayer_def removePlayer_players by (rule find_filter_other) simp

lemma getPlayer_startReload:
  "b \<noteq> a \<Longrightarrow> getPlayer a (startReload b s) = getPlayer a s"
  by (simp add: getPlayer_def startReload_players find_map_other)

lemma stillDead_manualReload:
  assumes "stillDead a p s"
  shows "stillDead a p (manualReload b s)"
proof (cases "b = a")
  case True
  then have "manualReload b s = s"
    using assms by (auto simp: manualReload_def stillDead_def split: option.splits)
  then show ?thesis using assms by simp
next
  case False
  have "getPlayer a (manualReload b s) = getPlayer a s"
    by (simp add: manualReload_def getPlayer_startReload[OF False] split: option.split)
  then show ?thesis by (rule stillDead_other[OF assms])
qed

lemma getPlayer_reloadDone:
  assumes "b \<noteq> a"
  shows "getPlayer a (runCallback (ReloadDone b w) s) = getPlayer a s"
proof (cases "getPlayer b s")
  case None
  then show ?thesis by simp
next
  case (Some pb)
  show ?thesis
  proof (cases "isDead pb")
    case True
    then show ?thesis using Some by simp
  next
    case False
    let ?f = "\<lambda>q::PlayerState. q\<lparr>isReloading := False, ammo := clipSize (WEAPON_STATS w)\<rparr>"
    have "getPlayer a (modPlayer b ?f s) = getPlayer a s"
      using getPlayer_modPlayer[of ?f a b s] assms by simp
    moreover have "getPlayer a (runCallback (ReloadDone b w) s) = getPlayer a (modPlayer b ?f s)"
      using Some False by (simp add: getPlayer_def)
    ultimately show ?thesis by (simp only:)
  qed
qed

lemma stillDead_runCallback:
  assumes d: "stillDead a p s"
  shows "stillDead a p (runCallback cb s)"
proof (cases cb)
  case (ReloadDone b w)
  show ?thesis
  proof (cases "b = a")
    case True
    from d obtain q where q: "getPlayer a s = Some q" "isDead q"
      by (auto simp: stillDead_def split: option.splits)
    have "runCallback (ReloadDone b w) s = s" unfolding True by (simp add: q)
    then show ?thesis unfolding ReloadDone using d by (simp only:)
  next
    case False
    show ?thesis unfolding ReloadDone
      by (rule stillDead_other[OF d getPlayer_reloadDone[OF False]])
  qed
next
  case (SpawnProtectionOver b)
  have "stillDead a p (modPlayer b (\<lambda>p. p\<lparr>isInSpawn := False\<rparr>) s)"
    by (rule stillDead_map[OF d, where g="\<lambda>q. if pid q = b then q\<lparr>isInSpawn := False\<rparr> else q"])
       simp_all
  then show ?thesis unfolding SpawnProtectionOver by (rule stillDead_same) simp
next
  case RoomInfoBroadcast
  show ?thesis unfolding RoomInfoBroadcast by (rule stillDead_same[OF d]) simp
qed

lemma stillDead_fireTimer:
  assumes d: "stillDead a p s"
  shows "stillDead a p (fireTimer h s)"
proof (cases "map_of (pendingTimers s) h")
  case None
  then show ?thesis using d by (simp add: fireTimer_def)
next
  case (Some cb)
  have eq: "fireTimer h s = runCallback cb (clearTimeout h s)" by (simp add: fireTimer_def Some)
  have 0: "stillDead a p (clearTimeout h s)" by (rule stillDead_same[OF d]) simp
  show ?thesis unfolding eq by (rule stillDead_runCallback[OF 0])
qed

lemma stillDead_gameTick:
  assumes dist: "distinct (map pid (players s))" and d: "stillDead a p s"
  shows "players (gameTick now rnd s) = [] \<or> stillDead a p (gameTick now rnd s)"
proof -
  from d obtain q where q: "getPlayer a s = Some q" "isDead q" "ammo q = ammo p"
      "isReloading q = isReloading p"
    by (auto simp: stillDead_def split: option.splits)
  from evolves_dead[OF gameTick_evolves[OF dist] q(1,2), of now rnd]
  show ?thesis using q by (auto simp: stillDead_def)
qed

lemma stillDead_step:
  assumes dist: "distinct (map pid (players s))" and d: "stillDead a p s"
    and ev: "\<not> resets a ev"
  shows "players (step ev s) = [] \<or> stillDead a p (step ev s)"
proof (cases ev)
  case StartGame
  then show ?thesis using ev by simp
next
  case StartGameLoop
  have "stillDead a p (fold grantSpawnProtection (map pid (players s)) s)"
    by (rule fold_inv[where P="stillDead a p", OF stillDead_grantSpawnProtection d])
  then have "stillDead a p (startGameLoop s)"
    by (rule stillDead_same) (simp add: startGameLoop_def)
  then show ?thesis unfolding StartGameLoop by simp
next
  case (Tick now rnd)
  show ?thesis unfolding Tick step.simps by (rule stillDead_gameTick[OF dist d])
next
  case (Input b i)
  have "stillDead a p (handleInput b i s)" by (rule stillDead_same[OF d]) simp
  then show ?thesis unfolding Input by simp
next
  case (Respawn b)
  then have "b \<noteq> a" using ev by simp
  then show ?thesis unfolding Respawn
    using stillDead_other[OF d getPlayer_respawnPlayer] by simp
next
  case (Reload b)
  show ?thesis unfolding Reload using stillDead_manualReload[OF d] by simp
next
  case (Loadout b mv wp)
  then have "b \<noteq> a" using ev by simp
  then show ?thesis unfolding Loadout
    using stillDead_other[OF d getPlayer_setPlayerLoadout] by simp
next
  case (Timer h)
  show ?thesis unfolding Timer using stillDead_fireTimer[OF d] by simp
next
  case (Leave b)
  then have "b \<noteq> a" using ev by simp
  then show ?thesis unfolding Leave
    using stillDead_other[OF d getPlayer_removePlayer] by simp
qed

lemma evolves_nil: "evolves s s' \<Longrightarrow> players s = [] \<Longrightarrow> players s' = []"
  unfolding evolves_def by (induction rule: rtranclp_induct) (auto simp: micro_def)

lemma nil_step:
  assumes "players s = []" "ev \<noteq> StartGame"
  shows "players (step ev s) = []"
proof (cases ev)
  case StartGame
  then show ?thesis using assms by simp
next
  case StartGameLoop
  then show ?thesis using assms by (simp add: startGameLoop_def)
next
  case (Tick now rnd)
  have "evolves s (gameTick now rnd s)" by (rule gameTick_evolves) (simp add: assms)
  then show ?thesis unfolding Tick step.simps using assms(1) by (rule evolves_nil)
next
  case (Input b i)
  then show ?thesis using assms by simp
next
  case (Respawn b)
  then show ?thesis using assms by (simp add: respawnPlayer_def getPlayer_def)
next
  case (Reload b)
  then show ?thesis using assms by (simp add: manualReload_def getPlayer_def)
next
  case (Loadout b mv wp)
  then show ?thesis using assms by (simp add: setPlayerLoadout_def getPlayer_def)
next
  case (Timer h)
  have "players (runCallback cb (clearTimeout h s)) = []" for cb
    using assms by (cases cb) (simp_all add: getPlayer_def)
  then show ?thesis unfolding Timer using assms by (simp add: fireTimer_def split: option.split)
next
  case (Leave b)
  then show ?thesis using assms by (simp add: removePlayer_players)
qed

lemma stillDead_run:
  assumes "roomOk s" "players s = [] \<or> stillDead a p s" "list_all (\<lambda>ev. \<not> resets a ev) evs"
  shows "players (run evs s) = [] \<or> stillDead a p (run evs s)"
  using assms
proof (induction evs arbitrary: s)
  case Nil
  then show ?case by (simp add: run_def)
next
  case (Cons ev evs)
  have ev: "\<not> resets a ev" and evs: "list_all (\<lambda>ev. \<not> resets a ev) evs"
    using Cons.prems(3) by simp_all
  have ne: "ev \<noteq> StartGame" using ev by auto
  have 1: "roomOk (step ev s)" by (rule roomOk_step[OF Cons.prems(1)])
  have dist: "distinct (map pid (players s))" using Cons.prems(1) by (simp add: roomOk_def)
  have 2: "players (step ev s) = [] \<or> stillDead a p (step ev s)"
    using Cons.prems(2) nil_step[OF _ ne] stillDead_step[OF dist _ ev] by blast
  have "run (ev # evs) s = run evs (step ev s)" by (simp add: run_def)
  then show ?case using Cons.IH[OF 1 2 evs] by simp
qed

section \<open>The projectile cap\<close>

lemma owned_keys:
  "length (filter (\<lambda>q. ownerId q = a) qs) = length (filter (\<lambda>k. snd k = a) (map projKey qs))"
  by (induction qs) (simp_all add: projKey_def)

lemma ids_keys: "map projId qs = map fst (map projKey qs)"
  by (simp add: projKey_def)

lemma length_filter_filter: "length (filter Q (filter P xs)) \<le> length (filter Q xs)"
  by (induction xs) auto

lemma capOk_filter:
  assumes ok: "capOk s"
    and k: "map projKey (projectiles s') = filter P (map projKey (projectiles s))"
    and c: "projectileIdCounter s' = projectileIdCounter s"
  shows "capOk s'"
proof -
  have d: "distinct (map fst (map projKey (projectiles s)))"
    using ok unfolding capOk_def ids_keys by blast
  have 1: "distinct (map projId (projectiles s'))"
    unfolding ids_keys k by (rule distinct_map_filter[OF d])
  have 2: "projId q < projectileIdCounter s'" if q: "q \<in> set (projectiles s')" for q
  proof -
    have "projKey q \<in> set (map projKey (projectiles s'))" using q by simp
    then have "projKey q \<in> set (map projKey (projectiles s))" unfolding k by simp
    then obtain q0 where q0: "q0 \<in> set (projectiles s)" "projKey q0 = projKey q" by auto
    then have "projId q0 = projId q" by (simp add: projKey_def)
    then show ?thesis using ok q0(1) unfolding capOk_def c by auto
  qed
  have 3: "length (filter (\<lambda>q. ownerId q = a) (projectiles s')) \<le> MAX_PROJECTILES_PER_PLAYER" for a
  proof -
    have "length (filter (\<lambda>q. ownerId q = a) (projectiles s'))
        \<le> length (filter (\<lambda>q. ownerId q = a) (projectiles s))"
      unfolding owned_keys k by (rule length_filter_filter)
    also have "\<dots> \<le> MAX_PROJECTILES_PER_PLAYER" using ok unfolding capOk_def by blast
    finally show ?thesis .
  qed
  show ?thesis unfolding capOk_def using 1 2 3 by blast
qed

lemma capOk_same:
  assumes "capOk s" "projectiles s' = projectiles s" "projectileIdCounter s' = projectileIdCounter s"
  shows "capOk s'"
  using assms by (simp add: capOk_def)

lemma capOk_nil:
  assumes "capOk s" "projectiles s' = []" "projectileIdCounter s' = projectileIdCounter s"
  shows "capOk s'"
  using assms by (simp add: capOk_def)

lemma endGame_counter [simp]: "projectileIdCounter (endGame w s) = projectileIdCounter s"
  by (simp add: endGame_def Let_def setTimeout_def emit_def)

lemma startReload_counter [simp]: "projectileIdCounter (startReload a s) = projectileIdCounter s"
  by (simp add: startReload_def Let_def split: option.split)

lemma cancelTimer_counter [simp]: "projectileIdCounter (cancelTimer a ts s) = projectileIdCounter s"
  by (simp add: cancelTimer_def split: option.split)

lemma damagePlayer_projectiles:
  "projectileIdCounter (damagePlayer t dmg src s) = projectileIdCounter s
   \<and> (projectiles (damagePlayer t dmg src s) = projectiles s
        \<or> projectiles (damagePlayer t dmg src s) = [])"
  by (simp add: damagePlayer_def Let_def split: option.split)

lemma capOk_damagePlayer: "capOk s \<Longrightarrow> capOk (damagePlayer t dmg src s)"
  using damagePlayer_projectiles[of t dmg src s] capOk_same[of s] capOk_nil[of s] by blast

lemma capOk_emit [simp]: "capOk (emit e s) = capOk s"
  by (simp add: capOk_def)

lemma capOk_modPlayer [simp]: "capOk (modPlayer a f s) = capOk s"
  by (simp add: capOk_def)

lemma capOk_damageObstacle [simp]: "capOk (damageObstacle k d s) = capOk s"
  by (simp add: capOk_def)

lemma capOk_startReload [simp]: "capOk (startReload a s) = capOk s"
  by (simp add: capOk_def)

lemma capOk_handleHitscan: "capOk s \<Longrightarrow> capOk (handleHitscan a ang dmg rng s)"
  by (simp add: handleHitscan_def Let_def capOk_damagePlayer split: option.split)

lemma capOk_deleteProjectile: "capOk s \<Longrightarrow> capOk (deleteProjectile k s)"
proof (rule capOk_filter[where P="\<lambda>e. fst e \<noteq> k"])
  show "map projKey (projectiles (deleteProjectile k s))
      = filter (\<lambda>e. fst e \<noteq> k) (map projKey (projectiles s))"
    by (simp add: deleteProjectile_def filter_map o_def projKey_def)
qed simp_all

lemma tryShoot_cases:
  "tryShoot now rnd a s = s
   \<or> (length (filter (\<lambda>q. ownerId q = a) (projectiles s)) < MAX_PROJECTILES_PER_PLAYER
      \<and> (\<exists>s3. projectiles s3 = projectiles s \<and> projectileIdCounter s3 = projectileIdCounter s
            \<and> ((\<exists>ang dmg rng. tryShoot now rnd a s = handleHitscan a ang dmg rng s3)
               \<or> (\<exists>pr. ownerId pr = a \<and> projId pr = projectileIdCounter s3
                     \<and> tryShoot now rnd a s = s3\<lparr>projectiles := projectiles s3 @ [pr],
                           projectileIdCounter := Suc (projectileIdCounter s3)\<rparr>))))"
proof (cases "getPlayer a s")
  case None
  then show ?thesis by (simp add: tryShoot_def)
next
  case (Some player)
  define ws where "ws = WEAPON_STATS (weapon player)"
  define s1 where "s1 = s\<lparr>lastShotTime := (lastShotTime s)(a \<mapsto> now)\<rparr>"
  define s2 where "s2 = modPlayer a (\<lambda>p. p\<lparr>ammo := ammo p - 1\<rparr>) s1"
  define s3 where "s3 = (if ammo player - 1 \<le> 0 then startReload a s2 else s2)"
  define ang where "ang = angle player + (rnd - 1 / 2) * spread ws"
  define pr where "pr = \<lparr>projId = projectileIdCounter s3, ownerId = a,
                             projX = posX player + cos ang * (PLAYER_RADIUS + 5),
                             projY = posY player + sin ang * (PLAYER_RADIUS + 5),
                             projZ = posZ player, projAngle = ang,
                             projSpeed = projectileSpeed ws,
                             projDamage = damage ws,
                             projType = weapon player, projArena = currentArena player,
                             createdAt = now\<rparr>"
  define s4 where "s4 = s3\<lparr>projectiles := projectiles s3 @ [pr],
                         projectileIdCounter := Suc (projectileIdCounter s3)\<rparr>"
  define c where "c = (ammo player \<le> 0 \<or> isReloading player
     \<or> now - (case lastShotTime s a of None \<Rightarrow> 0 | Some t \<Rightarrow> t) < 1000 / fireRate ws
     \<or> length (filter (\<lambda>q. ownerId q = a) (projectiles s)) \<ge> MAX_PROJECTILES_PER_PLAYER)"
  have X: "tryShoot now rnd a s =
      (if ammo player \<le> 0 \<or> isReloading player then s
       else if now - (case lastShotTime s a of None \<Rightarrow> 0 | Some t \<Rightarrow> t) < 1000 / fireRate ws then s
       else if length (filter (\<lambda>q. ownerId q = a) (projectiles s)) \<ge> MAX_PROJECTILES_PER_PLAYER then s
       else if isHitscan ws then handleHitscan a ang (damage ws) (range ws) s3 else s4)"
    by (simp only: tryShoot_def Some option.case Let_def s4_def pr_def ang_def s3_def s2_def s1_def ws_def)
  have X': "tryShoot now rnd a s =
      (if c then s else if isHitscan ws then handleHitscan a ang (damage ws) (range ws) s3 else s4)"
    unfolding X c_def by (rule if_chain3)
  have p3: "projectiles s3 = projectiles s" "projectileIdCounter s3 = projectileIdCounter s"
    by (simp_all add: s3_def s2_def s1_def)
  have k: "ownerId pr = a" "projId pr = projectileIdCounter s3" by (simp_all add: pr_def)
  show ?thesis
  proof (cases c)
    case True
    then show ?thesis by (simp only: X' if_True simp_thms)
  next
    case False
    then have lt: "length (filter (\<lambda>q. ownerId q = a) (projectiles s)) < MAX_PROJECTILES_PER_PLAYER"
      unfolding c_def by simp
    show ?thesis
    proof (cases "isHitscan ws")
      case True
      have "tryShoot now rnd a s = handleHitscan a ang (damage ws) (range ws) s3"
        using False True by (simp only: X' if_True if_False)
      then show ?thesis using lt p3 by blast
    next
      case h: False
      have "tryShoot now rnd a s = s4" using False h by (simp only: X' if_True if_False)
      then show ?thesis using lt p3 k unfolding s4_def by blast
    qed
  qed
qed

lemma capOk_append:
  assumes ok: "capOk s" and lt: "length (filter (\<lambda>q. ownerId q = ownerId pr) (projectiles s)) < MAX_PROJECTILES_PER_PLAYER"
    and k: "projId pr = projectileIdCounter s"
  shows "capOk (s\<lparr>projectiles := projectiles s @ [pr],
                  projectileIdCounter := Suc (projectileIdCounter s)\<rparr>)"
proof -
  have new: "projId pr \<notin> projId ` set (projectiles s)"
    using ok unfolding capOk_def k by auto
  have le: "length (filter (\<lambda>q. ownerId q = a) (projectiles s)) \<le> MAX_PROJECTILES_PER_PLAYER" for a
    using ok unfolding capOk_def by blast
  have 1: "distinct (map projId (projectiles s @ [pr]))"
    using ok new unfolding capOk_def by simp
  have 2: "\<forall>q \<in> set (projectiles s @ [pr]). projId q < Suc (projectileIdCounter s)"
    using ok k unfolding capOk_def by auto
  have 3: "length (filter (\<lambda>q. ownerId q = a) (projectiles s @ [pr])) \<le> MAX_PROJECTILES_PER_PLAYER" for a
    using lt le[of a] by (cases "ownerId pr = a") auto
  show ?thesis unfolding capOk_def using 1 2 3 by simp
qed

lemma capOk_tryShoot:
  assumes ok: "capOk s"
  shows "capOk (tryShoot now rnd a s)"
proof -
  from tryShoot_cases[of now rnd a s] show ?thesis
  proof (elim disjE conjE exE)
    assume "tryShoot now rnd a s = s"
    then show ?thesis using ok by simp
  next
    fix s3 ang dmg rng
    assume s3: "projectiles s3 = projectiles s" "projectileIdCounter s3 = projectileIdCounter s"
      and e: "tryShoot now rnd a s = handleHitscan a ang dmg rng s3"
    have "capOk s3" by (rule capOk_same[OF ok s3])
    then show ?thesis unfolding e by (rule capOk_handleHitscan)
  next
    fix s3 pr
    assume lt: "length (filter (\<lambda>q. ownerId q = a) (projectiles s)) < MAX_PROJECTILES_PER_PLAYER"
      and s3: "projectiles s3 = projectiles s" "projectileIdCounter s3 = projectileIdCounter s"
      and pr: "ownerId pr = a" "projId pr = projectileIdCounter s3"
      and e: "tryShoot now rnd a s = s3\<lparr>projectiles := projectiles s3 @ [pr],
                           projectileIdCounter := Suc (projectileIdCounter s3)\<rparr>"
    have 3: "capOk s3" by (rule capOk_same[OF ok s3])
    show ?thesis unfolding e
      by (rule capOk_append[OF 3 _ pr(2)]) (use lt in \<open>simp add: pr(1) s3(1)\<close>)
  qed
qed

lemma capOk_updateOne: "capOk s \<Longrightarrow> capOk (updateOne now rnd k s)"
  by (simp add: updateOne_def updatePlayer_def Let_def capOk_tryShoot split: option.split)

lemma projectileStep_counter [simp]:
  "projectileIdCounter (projectileStep now k s) = projectileIdCounter s"
  by (simp add: projectileStep_def Let_def split: option.split)

lemma capOk_projectileStep:
  assumes ok: "capOk s"
  shows "capOk (projectileStep now k s)"
proof (cases "getProjectile k s")
  case None
  then show ?thesis using ok by (simp add: projectileStep_def)
next
  case (Some proj0)
  define proj where "proj = proj0\<lparr>projX := projX proj0 + cos (projAngle proj0) * projSpeed proj0,
                      projY := projY proj0 + sin (projAngle proj0) * projSpeed proj0\<rparr>"
  define ps where "ps = map (\<lambda>q. if projId q = k then proj else q) (projectiles s)"
  have 0: "proj0 \<in> set (projectiles s)" "projId proj0 = k"
    using getProjectile_SomeD[OF Some] by simp_all
  have inj: "inj_on projId (set (projectiles s))"
    using ok unfolding capOk_def distinct_map by blast
  have same: "projKey (if projId q = k then proj else q) = projKey q"
    if q: "q \<in> set (projectiles s)" for q
  proof (cases "projId q = k")
    case True
    then have "q = proj0" using inj q 0 unfolding inj_on_def by blast
    then show ?thesis using True by (simp add: proj_def projKey_def)
  next
    case False
    then show ?thesis by simp
  qed
  have keys: "map projKey ps = map projKey (projectiles s)"
    unfolding ps_def map_map by (rule map_cong[OF refl]) (simp add: same)
  have B: "projectiles (projectileStep now k s) = ps
      \<or> projectiles (projectileStep now k s) = filter (\<lambda>q. projId q \<noteq> k) ps"
    using Some unfolding ps_def proj_def
    by (simp add: projectileStep_def Let_def deleteProjectile_def split: option.split)
  then show ?thesis
  proof
    assume e: "projectiles (projectileStep now k s) = ps"
    show ?thesis
      by (rule capOk_filter[OF ok, where P="\<lambda>_. True"]) (simp_all add: e keys)
  next
    assume e: "projectiles (projectileStep now k s) = filter (\<lambda>q. projId q \<noteq> k) ps"
    have "map projKey (filter (\<lambda>q. projId q \<noteq> k) ps) = filter (\<lambda>e. fst e \<noteq> k) (map projKey ps)"
      by (simp add: filter_map o_def projKey_def)
    then show ?thesis
      by (intro capOk_filter[OF ok, where P="\<lambda>e. fst e \<noteq> k"]) (simp_all add: e keys)
  qed
qed

lemma capOk_collisionStep: "capOk s \<Longrightarrow> capOk (collisionStep k s)"
  by (simp add: collisionStep_def capOk_deleteProjectile capOk_damagePlayer split: option.split)

lemma capOk_update: "capOk s \<Longrightarrow> capOk (update now rnd s)"
  unfolding update_def checkCollisions_def updateProjectiles_def
  by (intro fold_inv[where P=capOk] capOk_collisionStep capOk_projectileStep capOk_updateOne)

lemma capOk_gameTick: "capOk s \<Longrightarrow> capOk (gameTick now rnd s)"
proof -
  assume ok: "capOk s"
  have "capOk ((broadcastState now (update now rnd s))\<lparr>tick := tick (broadcastState now (update now rnd s)) + 1\<rparr>)"
    by (rule capOk_same[OF capOk_update[OF ok]]) (simp_all add: broadcastState_def)
  then show ?thesis using ok by (simp add: gameTick_def Let_def)
qed

lemma capOk_grantSpawnProtection: "capOk s \<Longrightarrow> capOk (grantSpawnProtection a s)"
  by (rule capOk_same) (simp_all add: grantSpawnProtection_def Let_def setTimeout_def)

lemma capOk_step: "capOk s \<Longrightarrow> capOk (step ev s)"
proof (cases ev)
  case StartGame
  assume "capOk s" then show ?thesis unfolding StartGame step.simps
    by (rule capOk_same) (simp_all add: startGame_def initializePlayers_def)
next
  case StartGameLoop
  assume ok: "capOk s"
  have "capOk (fold grantSpawnProtection (map pid (players s)) s)"
    by (rule fold_inv[where P=capOk, OF capOk_grantSpawnProtection ok])
  then show ?thesis unfolding StartGameLoop step.simps startGameLoop_def
    by (rule capOk_same) simp_all
next
  case (Tick now rnd)
  assume "capOk s" then show ?thesis unfolding Tick step.simps by (rule capOk_gameTick)
next
  case (Input a i)
  assume "capOk s" then show ?thesis unfolding Input step.simps
    by (rule capOk_same) (simp_all add: handleInput_def)
next
  case (Respawn a)
  assume ok: "capOk s"
  show ?thesis unfolding Respawn step.simps
    by (rule capOk_same[OF ok])
       (simp_all add: respawnPlayer_def Let_def grantSpawnProtection_def setTimeout_def
          split: option.split)
next
  case (Reload a)
  assume "capOk s" then show ?thesis unfolding Reload step.simps
    by (simp add: manualReload_def split: option.split)
next
  case (Loadout a mv wp)
  assume ok: "capOk s"
  show ?thesis unfolding Loadout step.simps
    by (rule capOk_same[OF ok]) (simp_all add: setPlayerLoadout_def Let_def split: option.split)
next
  case (Timer h)
  assume ok: "capOk s"
  have "capOk (runCallback cb (clearTimeout h s))" for cb
    using ok by (cases cb) (simp_all add: capOk_def split: option.split)
  then show ?thesis unfolding Timer step.simps using ok
    by (simp add: fireTimer_def split: option.split)
next
  case (Leave a)
  assume ok: "capOk s"
  show ?thesis unfolding Leave step.simps
    by (rule capOk_same[OF ok]) (simp_all add: removePlayer_def Let_def)
qed

lemma capOk_run: "capOk s \<Longrightarrow> capOk (run evs s)"
  unfolding run_def by (rule fold_inv[where P=capOk, OF capOk_step])

lemma capOk_newRoom: "capOk (newRoom roster)"
  by (simp add: capOk_def newRoom_def)

section \<open>The claims\<close>

subsection \<open>C9: the distance returned by the ray-rectangle test\<close>

text \<open>
  C9, at a failing input. A ray that runs to the right (\<open>dy = 0\<close>) from the point
  \<open>(300, 260)\<close>, which lies on the line of the lower edge of the rectangle
  \<open>[200, 260] \<times> [200, 260]\<close> and to the right of it: \<^verbatim>\<open>rayRectIntersect\<close> returns
  neither \<^verbatim>\<open>null\<close> nor a distance, but NaN (from \<^verbatim>\<open>0 * Infinity\<close>), which is not
  non-negative.
\<close>

theorem rayRectIntersect_returns_NaN:
  "rayRectIntersect 300 260 1 0 (rect 200 200 60 60) = Some NaN \<and> \<not> js_nonneg NaN"
  by (simp add: rayRectIntersect_def rect_def invDir_def js_lt_def js_max_def js_min_def
      js_nonneg_def Let_def)

text \<open>
  What does hold of C9: every result other than NaN is non-negative, and from an origin
  strictly inside the rectangle the routine returns the positive distance to the exit.
\<close>

lemma rayRectIntersect_nonneg:
  "rayRectIntersect ox oy dx dy r = Some v \<Longrightarrow> v \<noteq> NaN \<Longrightarrow> js_nonneg v"
  unfolding rayRectIntersect_def Let_def
  by (auto split: if_splits intro: js_gt_zero_nonneg js_not_lt_zero_nonneg)

lemma rayRectIntersect_inside:
  assumes "rectX r < ox" "ox < rectX r + width r" "rectY r < oy" "oy < rectY r + height r"
    "dx \<noteq> 0 \<or> dy \<noteq> 0"
  shows "\<exists>t. rayRectIntersect ox oy dx dy r = Some (Fin t) \<and> 0 < t"
proof -
  let ?a = "rectX r - ox" and ?b = "rectX r + width r - ox"
  let ?c = "rectY r - oy" and ?d = "rectY r + height r - oy"
  have ab: "?a < 0" "0 < ?b" and cd: "?c < 0" "0 < ?d" using assms by auto
  note X = slab_inside[OF ab, of dx] and Y = slab_inside[OF cd, of dy]
  have en: "js_gt (Fin 0) (js_max
     (if js_gt (js_times ?a (invDir dx)) (js_times ?b (invDir dx))
            then js_times ?b (invDir dx) else js_times ?a (invDir dx))
     (if js_gt (js_times ?c (invDir dy)) (js_times ?d (invDir dy))
            then js_times ?d (invDir dy) else js_times ?c (invDir dy)))" (is "js_gt _ ?en")
    by (rule js_max_neg2[OF X(1) Y(1)])
  have "\<exists>t. js_min (if js_gt (js_times ?a (invDir dx)) (js_times ?b (invDir dx))
            then js_times ?a (invDir dx) else js_times ?b (invDir dx))
       (if js_gt (js_times ?c (invDir dy)) (js_times ?d (invDir dy))
            then js_times ?c (invDir dy) else js_times ?d (invDir dy)) = Fin t \<and> 0 < t"
    (is "\<exists>t. ?ex = Fin t \<and> _")
    using js_min_pos[OF X(2) Y(2)] X(3) Y(3) assms(5) by blast
  then obtain t where t: "?ex = Fin t" "0 < t" by blast
  have "\<not> js_gt ?en ?ex \<and> \<not> js_lt ?ex (Fin 0)" by (rule js_enter_exit[OF en t])
  moreover have "\<not> js_gt ?en (Fin 0)" using en by (cases ?en) auto
  ultimately have "rayRectIntersect ox oy dx dy r = Some ?ex"
    unfolding rayRectIntersect_def Let_def by simp
  with t show ?thesis by simp
qed

subsection \<open>C3: fuel\<close>

text \<open>
  C3 as stated fails: descending thrust costs no fuel. The jetpack player \<open>exJet\<close>
  descends at the full climb rate and keeps its 50 units of fuel; started near the ground
  (altitude 3) it even regenerates fuel while it descends.
\<close>

theorem descent_costs_no_fuel:
  "fuelCapacity (MOVEMENT_STATS (movement exJet)) > 0
   \<and> velocityZ (movePlayer exJet (idleInput\<lparr>crouch := True\<rparr>)) = - 5
   \<and> fuel (movePlayer exJet (idleInput\<lparr>crouch := True\<rparr>)) = fuel exJet
   \<and> fuel (movePlayer (exJet\<lparr>posZ := 3\<rparr>) (idleInput\<lparr>crouch := True\<rparr>)) = fuel exJet + 3 / 2"
  by (simp add: fuel_movePlayer vz_movePlayer fuelStep_def verticalVelocity_def exJet_def
      exPlayer_def idleInput_def)

text \<open>
  C3, amended: for a fuel-based archetype only the ascent is fuel-gated. A tick with the
  ascend flag and fuel left burns \<open>fuelDrain\<close> (not below zero) and climbs at the climb
  rate, whether or not the descend flag is set as well: the ascend flag takes precedence.
  With the ascend flag and no fuel the ascent is denied (the vertical velocity is not
  positive). A descent costs no fuel and is never denied for lack of fuel: in every tick
  that is not a fuelled ascent the descend flag gives the vertical velocity
  \<open>- zClimbRate\<close>, at any fuel level, also when the ascend flag is set and the fuel is
  exhausted. And in every tick without a fuelled ascent the fuel regenerates (up to
  the capacity) exactly if the tick starts grounded, at altitude at most 5, also while
  descending.
\<close>

theorem fuel_gates_ascent_only:
  assumes "fuelCapacity (MOVEMENT_STATS (movement p)) > 0"
  shows "fuel (movePlayer p inp) =
      (if jump inp \<and> fuel p > 0 then max 0 (fuel p - fuelDrain (MOVEMENT_STATS (movement p)))
       else if posZ p \<le> MIN_Z + 5
         then min (fuelCapacity (MOVEMENT_STATS (movement p)))
                (fuel p + fuelRegen (MOVEMENT_STATS (movement p)))
       else fuel p)
    \<and> (jump inp \<and> fuel p > 0 \<longrightarrow>
          velocityZ (movePlayer p inp) = zClimbRate (MOVEMENT_STATS (movement p)))
    \<and> (jump inp \<and> fuel p \<le> 0 \<longrightarrow> velocityZ (movePlayer p inp) \<le> 0)
    \<and> (crouch inp \<and> \<not> (jump inp \<and> fuel p > 0) \<longrightarrow>
          velocityZ (movePlayer p inp) = - zClimbRate (MOVEMENT_STATS (movement p)))"
proof -
  note asc = fuelStep_fst[OF assms]
  have f: "fuel (movePlayer p inp) =
      (if jump inp \<and> fuel p > 0 then max 0 (fuel p - fuelDrain (MOVEMENT_STATS (movement p)))
       else if posZ p \<le> MIN_Z + 5
         then min (fuelCapacity (MOVEMENT_STATS (movement p)))
                (fuel p + fuelRegen (MOVEMENT_STATS (movement p)))
       else fuel p)"
    by (simp only: fuel_movePlayer fuelStep_snd[OF assms]) simp
  have v1: "jump inp \<and> fuel p > 0 \<longrightarrow>
      velocityZ (movePlayer p inp) = zClimbRate (MOVEMENT_STATS (movement p))"
    by (simp add: vz_movePlayer asc verticalVelocity_def)
  have v2: "jump inp \<and> fuel p \<le> 0 \<longrightarrow> velocityZ (movePlayer p inp) \<le> 0"
    using rates_nonneg[of "movement p"]
    by (simp add: vz_movePlayer asc verticalVelocity_def Let_def)
  have v3: "crouch inp \<and> \<not> (jump inp \<and> fuel p > 0) \<longrightarrow>
      velocityZ (movePlayer p inp) = - zClimbRate (MOVEMENT_STATS (movement p))"
    by (simp add: vz_movePlayer asc verticalVelocity_def)
  show ?thesis using f v1 v2 v3 by blast
qed

text \<open>
  Witness for C3 (amended): \<open>exJet\<close> ascends for one tick, burns 3 of its 50 units of fuel
  and climbs at rate 5, also with the descend flag set; with both flags and no fuel it
  descends at rate 5 and its fuel stays 0.
\<close>

theorem fuel_gates_ascent_only_witness:
  "fuelCapacity (MOVEMENT_STATS (movement exJet)) > 0
   \<and> jump (idleInput\<lparr>jump := True\<rparr>) \<and> fuel exJet > 0
   \<and> fuel (movePlayer exJet (idleInput\<lparr>jump := True\<rparr>)) = 47
   \<and> velocityZ (movePlayer exJet (idleInput\<lparr>jump := True\<rparr>)) = 5
   \<and> fuel (movePlayer exJet (idleInput\<lparr>jump := True, crouch := True\<rparr>)) = 47
   \<and> velocityZ (movePlayer exJet (idleInput\<lparr>jump := True, crouch := True\<rparr>)) = 5
   \<and> fuelCapacity (MOVEMENT_STATS (movement (exJet\<lparr>fuel := 0\<rparr>))) > 0
   \<and> crouch (idleInput\<lparr>jump := True, crouch := True\<rparr>) \<and> \<not> fuel (exJet\<lparr>fuel := 0\<rparr>) > 0
   \<and> fuel (movePlayer (exJet\<lparr>fuel := 0\<rparr>) (idleInput\<lparr>jump := True, crouch := True\<rparr>)) = 0
   \<and> velocityZ (movePlayer (exJet\<lparr>fuel := 0\<rparr>) (idleInput\<lparr>jump := True, crouch := True\<rparr>)) = - 5"
proof -
  have h: "fuelCapacity (MOVEMENT_STATS (movement exJet)) > 0"
    "fuelCapacity (MOVEMENT_STATS (movement (exJet\<lparr>fuel := 0\<rparr>))) > 0"
    by (simp_all add: exJet_def exPlayer_def)
  show ?thesis
    using fuel_gates_ascent_only[OF h(1), of "idleInput\<lparr>jump := True\<rparr>"]
      fuel_gates_ascent_only[OF h(1), of "idleInput\<lparr>jump := True, crouch := True\<rparr>"]
      fuel_gates_ascent_only[OF h(2), of "idleInput\<lparr>jump := True, crouch := True\<rparr>"] h
    by (simp add: exJet_def exPlayer_def idleInput_def)
qed

subsection \<open>C1: spawn protection\<close>

text \<open>
  C1 as stated fails: spawn protection does not stop a Combatant from dealing damage
  (\<^verbatim>\<open>updatePlayer\<close> calls \<^verbatim>\<open>tryShoot\<close> under the comment "no spawn protection in single
  arena mode", and \<^verbatim>\<open>tryShoot\<close> never reads the flag). In \<open>exProtectedSniper\<close> one tick
  lets the protected sniper \<open>a\<close> take the health of \<open>b\<close> from 100 to 0.
\<close>

theorem protected_shooter_kills:
  "getPlayer ''a'' exProtectedSniper = Some exSniper \<and> isInSpawn exSniper
   \<and> map (\<lambda>p. (pid p, health p)) (players exProtectedSniper) = [(''a'', 100), (''b'', 100)]
   \<and> map (\<lambda>p. (pid p, health p)) (players (gameTick 5000 (\<lambda>_. 0) exProtectedSniper))
        = [(''a'', 100), (''b'', 0)]"
proof -
  let ?s1 = "updateOne 5000 (\<lambda>_. 0) ''a'' exProtectedSniper"
  have b: "getPlayer ''b'' ?s1 = Some ((exPlayer ''b'')\<lparr>posX := 300, health := 0, isDead := True, deaths := 1\<rparr>)"
    by (simp add: getPlayer_def cx1_step1)
  have "updateOne 5000 (\<lambda>_. 0) ''b'' ?s1 = ?s1"
    by (rule updateOne_skip[OF b]) simp
  then have "update 5000 (\<lambda>_. 0) exProtectedSniper = ?s1"
    using no_projectiles_idle[OF cx1_step1_proj]
    by (simp add: update_def exProtectedSniper_def)
  then have "players (gameTick 5000 (\<lambda>_. 0) exProtectedSniper) = players ?s1"
    by (simp add: players_gameTick exProtectedSniper_def)
  then show ?thesis
    by (simp add: cx1_step1) (simp add: exProtectedSniper_def getPlayer_def)
qed

text \<open>
  C1, amended: a Combatant whose spawn-protection flag is set takes no damage. It fails
  the eligibility test of every hitscan shot and of every projectile, and a tick leaves its
  health, its dead flag, its death count and the flag itself unchanged (unless the match
  ends in that tick, which clears all Combatants). Its own shots are not gated by the flag.
\<close>

theorem protected_takes_no_damage:
  assumes "distinct (map pid (players s))" "getPlayer q s = Some p" "isInSpawn p"
  shows "\<not> hitscanEligible shooter p \<and> \<not> collides proj p
    \<and> (players (gameTick now rnd s) = []
       \<or> (\<exists>p'. getPlayer q (gameTick now rnd s) = Some p' \<and> health p' = health p
            \<and> isDead p' = isDead p \<and> deaths p' = deaths p \<and> isInSpawn p'))"
proof -
  have 1: "\<not> hitscanEligible shooter p \<and> \<not> collides proj p"
    using assms(3) by (simp add: hitscanEligible_def collides_def)
  show ?thesis
    using 1 evolves_protected[OF gameTick_evolves[OF assms(1)] assms(2,3), of now rnd]
    by blast
qed

text \<open>
  Witness for C1 (amended): the protected sniper of \<open>exProtectedSniper\<close> over one tick.
\<close>

theorem protected_takes_no_damage_witness:
  "distinct (map pid (players exProtectedSniper)) \<and> getPlayer ''a'' exProtectedSniper = Some exSniper
   \<and> isInSpawn exSniper
   \<and> (players (gameTick 5000 (\<lambda>_. 0) exProtectedSniper) = []
       \<or> (\<exists>p'. getPlayer ''a'' (gameTick 5000 (\<lambda>_. 0) exProtectedSniper) = Some p'
            \<and> health p' = health exSniper \<and> isDead p' = isDead exSniper \<and> deaths p' = deaths exSniper
            \<and> isInSpawn p'))"
proof -
  have h: "distinct (map pid (players exProtectedSniper))"
    "getPlayer ''a'' exProtectedSniper = Some exSniper" "isInSpawn exSniper"
    by (simp_all add: exProtectedSniper_def getPlayer_def)
  show ?thesis
    using protected_takes_no_damage[OF h, of exSniper undefined 5000 "\<lambda>_. 0"] h by blast
qed

subsection \<open>C2: a Combatant without an input record\<close>

text \<open>
  C2 as stated fails: \<^verbatim>\<open>update\<close> calls \<^verbatim>\<open>updatePlayer\<close> only under \<^verbatim>\<open>if (input)\<close>.
  A wings player at altitude 20 without an input record stays at 20 over a tick; with the
  all-false input record it sinks to 19.5.
\<close>

theorem idle_input_differs_from_no_input:
  "playerInputs (exRoom [exPlayer ''a'']) ''a'' = None
   \<and> map posZ (players (exRoom [exPlayer ''a''])) = [20]
   \<and> map posZ (players (gameTick 0 (\<lambda>_. 0) (exRoom [exPlayer ''a'']))) = [20]
   \<and> map posZ (players (gameTick 0 (\<lambda>_. 0) (handleInput ''a'' idleInput (exRoom [exPlayer ''a''])))) = [39 / 2]"
proof -
  have 1: "players (update 0 (\<lambda>_. 0) (exRoom [exPlayer ''a''])) = [exPlayer ''a'']"
    by (simp add: update_def updateOne_def getPlayer_def updateProjectiles_def checkCollisions_def)
  have 2: "players (update 0 (\<lambda>_. 0) (handleInput ''a'' idleInput (exRoom [exPlayer ''a''])))
      = [movePlayer (exPlayer ''a'') idleInput]"
    by (simp add: update_def updateOne_def getPlayer_def updateProjectiles_def checkCollisions_def
        updatePlayer_def modPlayer_def idleInput_def)
  have 3: "posZ (movePlayer (exPlayer ''a'') idleInput) = 39 / 2"
    by (simp add: posZ_movePlayer vz_movePlayer verticalVelocity_def fuelStep_def
        targetVelocity_def idleInput_def)
  show ?thesis by (simp add: players_gameTick 1 2 3)
qed

text \<open>
  C2, amended: an alive Combatant for which no input record has arrived is skipped by the
  per-tick movement/weapon update. After the tick its position, velocity, facing angle,
  fuel, ammo and reloading flag (every field but health, dead flag, deaths and kills, which
  shots of others may change) are what they were: no friction, gravity or glide, position
  integration or altitude clamping is applied. (Or the match ended in that tick.)
\<close>

theorem no_input_no_update:
  assumes "distinct (map pid (players s))" "getPlayer q s = Some p" "playerInputs s q = None"
  shows "players (gameTick now rnd s) = []
    \<or> (\<exists>p'. getPlayer q (gameTick now rnd s) = Some p' \<and> noVitals p' = noVitals p
          \<and> posX p' = posX p \<and> posY p' = posY p \<and> posZ p' = posZ p
          \<and> velocityX p' = velocityX p \<and> velocityY p' = velocityY p
          \<and> velocityZ p' = velocityZ p \<and> angle p' = angle p
          \<and> fuel p' = fuel p \<and> ammo p' = ammo p \<and> isReloading p' = isReloading p)"
proof -
  from evolves_no_input[OF gameTick_evolves[OF assms(1)] assms(2,3), of now rnd]
  show ?thesis
  proof
    assume "players (gameTick now rnd s) = []"
    then show ?thesis by (rule disjI1)
  next
    assume "playerInputs (gameTick now rnd s) q = None
      \<and> (\<exists>p'. getPlayer q (gameTick now rnd s) = Some p' \<and> noVitals p' = noVitals p)"
    then obtain p' where p': "getPlayer q (gameTick now rnd s) = Some p'"
      "noVitals p' = noVitals p" by blast
    show ?thesis using p' noVitals_fields[OF p'(2)] by blast
  qed
qed

text \<open>
  Witness for C2 (amended): the single player of an example room, with no input record.
\<close>

theorem no_input_no_update_witness:
  "distinct (map pid (players (exRoom [exPlayer ''a''])))
   \<and> getPlayer ''a'' (exRoom [exPlayer ''a'']) = Some (exPlayer ''a'')
   \<and> playerInputs (exRoom [exPlayer ''a'']) ''a'' = None
   \<and> (players (gameTick 0 (\<lambda>_. 0) (exRoom [exPlayer ''a''])) = []
    \<or> (\<exists>p'. getPlayer ''a'' (gameTick 0 (\<lambda>_. 0) (exRoom [exPlayer ''a''])) = Some p'
          \<and> posZ p' = posZ (exPlayer ''a'') \<and> velocityZ p' = velocityZ (exPlayer ''a'')
          \<and> fuel p' = fuel (exPlayer ''a'') \<and> ammo p' = ammo (exPlayer ''a'')))"
proof -
  have h: "distinct (map pid (players (exRoom [exPlayer ''a''])))"
    "getPlayer ''a'' (exRoom [exPlayer ''a'']) = Some (exPlayer ''a'')"
    "playerInputs (exRoom [exPlayer ''a'']) ''a'' = None"
    by (simp_all add: getPlayer_def)
  show ?thesis
    using no_input_no_update[OF h, of 0 "\<lambda>_. 0"] h by blast
qed

subsection \<open>C6: dead Combatants\<close>

text \<open>
  C6 as stated fails in one respect: the kill count of a dead Combatant is not unchanged
  by any shot. In \<open>exDeadOwner\<close> the rocket that the dead \<open>a\<close> fired earlier hits \<open>b\<close> in
  the next tick, and \<^verbatim>\<open>damagePlayer\<close> credits the kill to \<open>a\<close>.
\<close>

theorem dead_owner_gains_kill:
  "map (\<lambda>p. (pid p, isDead p, kills p)) (players exDeadOwner)
      = [(''a'', True, 0), (''b'', False, 0)]
   \<and> map (\<lambda>p. (pid p, isDead p, kills p)) (players (gameTick 100 (\<lambda>_. 0) exDeadOwner))
      = [(''a'', True, 1), (''b'', True, 0)]"
proof -
  have "gameLoop exDeadOwner" by (simp add: exDeadOwner_def)
  then show ?thesis
    by (simp add: players_gameTick cx6_players) (simp add: exDeadOwner_def)
qed

text \<open>
  C6, amended: a Combatant whose dead flag is set fails the eligibility test of every
  hitscan shot and of every projectile, and a tick changes nothing of it but, possibly,
  its kill count: health, death count, dead flag, position, velocity, fuel and ammo are
  unchanged (unless the match ends in that tick). The kill count does not decrease, and it
  is unchanged too when the dead Combatant owns no live projectile at the start of the tick.
\<close>

theorem dead_combatant_frozen:
  assumes "distinct (map pid (players s))" "getPlayer q s = Some p" "isDead p"
  shows "\<not> hitscanEligible shooter p \<and> \<not> collides proj p
    \<and> (players (gameTick now rnd s) = []
       \<or> (\<exists>k. getPlayer q (gameTick now rnd s) = Some (p\<lparr>kills := k\<rparr>) \<and> kills p \<le> k
            \<and> (k = kills p \<or> q \<in> ownerId ` set (projectiles s))))"
proof -
  have 1: "\<not> hitscanEligible shooter p \<and> \<not> collides proj p"
    using assms(3) by (simp add: hitscanEligible_def collides_def)
  note e = gameTick_evolves[OF assms(1), of now rnd]
  have 2: "players (gameTick now rnd s) = []
       \<or> (\<exists>k. getPlayer q (gameTick now rnd s) = Some (p\<lparr>kills := k\<rparr>) \<and> kills p \<le> k
            \<and> (k = kills p \<or> q \<in> ownerId ` set (projectiles s)))"
  proof (cases "q \<in> ownerId ` set (projectiles s)")
    case True
    then show ?thesis using evolves_dead[OF e assms(2,3)] by blast
  next
    case False
    have "p\<lparr>kills := kills p\<rparr> = p" by simp
    then show ?thesis using evolves_dead_noproj[OF e assms(1,2,3) False]
      by (metis order_refl)
  qed
  show ?thesis using 1 2 by blast
qed

text \<open>
  Witness for C6 (amended): the dead player of \<open>exDeadOwner\<close> over one tick.
\<close>

theorem dead_combatant_frozen_witness:
  "distinct (map pid (players exDeadOwner))
   \<and> getPlayer ''a'' exDeadOwner = Some ((exPlayer ''a'')\<lparr>isDead := True, health := 0, deaths := 1\<rparr>)
   \<and> isDead ((exPlayer ''a'')\<lparr>isDead := True, health := 0, deaths := 1\<rparr>)
   \<and> (players (gameTick 100 (\<lambda>_. 0) exDeadOwner) = []
       \<or> (\<exists>k. getPlayer ''a'' (gameTick 100 (\<lambda>_. 0) exDeadOwner)
               = Some ((exPlayer ''a'')\<lparr>isDead := True, health := 0, deaths := 1, kills := k\<rparr>)
            \<and> 0 \<le> k))"
proof -
  have h: "distinct (map pid (players exDeadOwner))"
   "getPlayer ''a'' exDeadOwner = Some ((exPlayer ''a'')\<lparr>isDead := True, health := 0, deaths := 1\<rparr>)"
   "isDead ((exPlayer ''a'')\<lparr>isDead := True, health := 0, deaths := 1\<rparr>)"
    by (simp_all add: exDeadOwner_def getPlayer_def)
  show ?thesis
    using dead_combatant_frozen[OF h, of undefined undefined 100 "\<lambda>_. 0"] h by auto
qed

subsection \<open>C4: the kill limit ends the match\<close>

text \<open>
  C4: if a damage resolution kills its target and thereby raises the kill count of the
  source to the kill limit (here: the source's count before the kill is at least the limit
  minus one), then \<^verbatim>\<open>damagePlayer\<close> itself ends the match: when it returns, the tick
  loop is stopped, the kill event and then the game-ended event with the final scores
  (this kill and death counted) have been emitted, and players, projectiles and obstacles
  are cleared. No later tick changes the room, and what remains of the running tick (the
  loops over players and projectiles) changes nothing either.
\<close>

theorem kill_limit_ends_match:
  assumes "getPlayer t s = Some pt" "health pt - dmg \<le> 0"
    and "getPlayer src s = Some ps" "KILL_LIMIT \<le> kills ps + 1"
  shows "\<not> gameLoop (damagePlayer t dmg src s)
    \<and> \<not> gameStarted (damagePlayer t dmg src s) \<and> \<not> inLoadoutPhase (damagePlayer t dmg src s)
    \<and> players (damagePlayer t dmg src s) = [] \<and> projectiles (damagePlayer t dmg src s) = []
    \<and> obstacles (damagePlayer t dmg src s) = []
    \<and> emitted (damagePlayer t dmg src s) = emitted s @ [EvKill src t,
          EvEnded src (map (\<lambda>p. (pid p, kills p + (if pid p = src then 1 else 0),
                                    deaths p + (if pid p = t then 1 else 0))) (players s))]
    \<and> (\<forall>now rnd. gameTick now rnd (damagePlayer t dmg src s) = damagePlayer t dmg src s)
    \<and> (\<forall>now rnd k j. updateOne now rnd k (damagePlayer t dmg src s) = damagePlayer t dmg src s
          \<and> projectileStep now j (damagePlayer t dmg src s) = damagePlayer t dmg src s
          \<and> collisionStep j (damagePlayer t dmg src s) = damagePlayer t dmg src s)"
proof -
  let ?fd = "\<lambda>p. p\<lparr>health := 0, isDead := True, deaths := deaths p + 1\<rparr>"
  let ?fk = "\<lambda>p. p\<lparr>kills := kills p + 1\<rparr>"
  let ?s1 = "modPlayer t ?fd s"
  let ?s2 = "modPlayer src ?fk ?s1"
  let ?s3 = "emit (EvKill src t) ?s2"
  have src: "pid ps = src" using getPlayer_SomeD[OF assms(3)] by simp
  have g1: "getPlayer src ?s1 = Some (if src = t then ?fd ps else ps)"
    using getPlayer_modPlayer[of ?fd src t s] assms(3) by auto
  have g2: "getPlayer src ?s2 = Some (?fk (if src = t then ?fd ps else ps))"
    using getPlayer_modPlayer[of ?fk src src ?s1] g1 by simp
  have g3: "getPlayer src ?s3 = Some (?fk (if src = t then ?fd ps else ps))"
    using g2 by (simp add: getPlayer_def)
  have eq: "damagePlayer t dmg src s = endGame src ?s3"
    using assms(1,2,4) g3 src by (simp add: damagePlayer_def Let_def)
  have sc: "map (\<lambda>p. (pid p, kills p, deaths p)) (players ?s3)
      = map (\<lambda>p. (pid p, kills p + (if pid p = src then 1 else 0),
                                    deaths p + (if pid p = t then 1 else 0))) (players s)"
    by (simp add: o_def)
  have em: "emitted (endGame src ?s3) = emitted s @ [EvKill src t,
          EvEnded src (map (\<lambda>p. (pid p, kills p + (if pid p = src then 1 else 0),
                                    deaths p + (if pid p = t then 1 else 0))) (players s))]"
    unfolding endGame_fields sc by simp
  have st: "players (endGame src ?s3) = []" "projectiles (endGame src ?s3) = []"
    "\<not> gameLoop (endGame src ?s3)" by simp_all
  show ?thesis unfolding eq using em endGame_stops[OF st] by simp
qed

text \<open>
  Witness for C4: at match point, a 50-damage hit of \<open>a\<close> on \<open>b\<close> ends the match with
  the scores 11:0 kills and 0:1 deaths.
\<close>

theorem kill_limit_ends_match_witness:
  "getPlayer ''b'' exMatchPoint = Some ((exPlayer ''b'')\<lparr>health := 50\<rparr>)
   \<and> health ((exPlayer ''b'')\<lparr>health := 50\<rparr>) - 50 \<le> 0
   \<and> getPlayer ''a'' exMatchPoint = Some ((exPlayer ''a'')\<lparr>kills := 10\<rparr>)
   \<and> KILL_LIMIT \<le> kills ((exPlayer ''a'')\<lparr>kills := 10\<rparr>) + 1
   \<and> \<not> gameLoop (damagePlayer ''b'' 50 ''a'' exMatchPoint)
   \<and> players (damagePlayer ''b'' 50 ''a'' exMatchPoint) = []
   \<and> emitted (damagePlayer ''b'' 50 ''a'' exMatchPoint)
        = [EvKill ''a'' ''b'', EvEnded ''a'' [(''a'', 11, 0), (''b'', 0, 1)]]
   \<and> gameTick 50 (\<lambda>_. 0) (damagePlayer ''b'' 50 ''a'' exMatchPoint)
        = damagePlayer ''b'' 50 ''a'' exMatchPoint"
proof -
  have h: "getPlayer ''b'' exMatchPoint = Some ((exPlayer ''b'')\<lparr>health := 50\<rparr>)"
    "health ((exPlayer ''b'')\<lparr>health := 50\<rparr>) - 50 \<le> 0"
    "getPlayer ''a'' exMatchPoint = Some ((exPlayer ''a'')\<lparr>kills := 10\<rparr>)"
    "KILL_LIMIT \<le> kills ((exPlayer ''a'')\<lparr>kills := 10\<rparr>) + 1"
    by (simp_all add: exMatchPoint_def getPlayer_def)
  have e: "emitted exMatchPoint = []"
    "players exMatchPoint = [(exPlayer ''a'')\<lparr>kills := 10\<rparr>, (exPlayer ''b'')\<lparr>health := 50\<rparr>]"
    by (simp_all add: exMatchPoint_def)
  show ?thesis
    using kill_limit_ends_match[OF h] h by (simp add: e)
qed

subsection \<open>C10: a reload timer that fires on a dead Combatant\<close>

text \<open>
  C10 as stated fails in its last part: the Combatant does not stay flagged as reloading
  until it respawns. A loadout change has no test of the dead flag: after the timer of
  the dead player of \<open>exDeadReloading\<close> has fired (ammo 0, flag set), a loadout request
  refills the clip and clears the flag, and the player is still dead.
\<close>

theorem dead_loadout_change_ends_reload:
  "map (\<lambda>p. (isDead p, ammo p, isReloading p)) (players (fireTimer 0 exDeadReloading))
     = [(True, 0, True)]
   \<and> map (\<lambda>p. (isDead p, ammo p, isReloading p))
       (players (setPlayerLoadout ''a'' WINGS ROCKET (fireTimer 0 exDeadReloading)))
     = [(True, 4, False)]"
  by (simp add: fireTimer_def exDeadReloading_def getPlayer_def clearTimeout_def
      setPlayerLoadout_def cancelTimer_def Let_def)

text \<open>
  C10, amended: if the reload-completion timer \<open>h\<close> of the Combatant \<open>a\<close> fires while \<open>a\<close>
  is dead, the callback changes nothing: the room is what it was but for the spent timer,
  so the ammo count is still the one at death and the reloading flag is as it was. The
  timer is gone, a manual reload request of the dead Combatant is refused, and a tick
  leaves its ammo and reloading flag alone. The respawn refills the clip (to the clip
  size of its weapon) and clears the flag; so does a loadout change of \<open>a\<close> (to the clip
  size of the new weapon), which leaves \<open>a\<close> dead. Nothing else does: in a room that
  satisfies the invariant \<open>roomOk\<close>, after any sequence of operations without a respawn,
  a loadout change or the departure of \<open>a\<close> and without the start of a new match, either
  the match has ended and the players are cleared, or \<open>a\<close> is still dead with the ammo
  count and the reloading flag it had at death.
\<close>

theorem dead_reload_timer_is_noop:
  assumes "distinct (map pid (players s))" "getPlayer a s = Some p" "isDead p"
    and "map_of (pendingTimers s) h = Some (ReloadDone a w)"
  shows "fireTimer h s = clearTimeout h s
    \<and> players (fireTimer h s) = players s
    \<and> reloadTimers (fireTimer h s) = reloadTimers s
    \<and> getPlayer a (fireTimer h s) = Some p
    \<and> map_of (pendingTimers (fireTimer h s)) h = None
    \<and> manualReload a (fireTimer h s) = fireTimer h s
    \<and> (\<forall>now rnd. players (gameTick now rnd (fireTimer h s)) = []
          \<or> (\<exists>p'. getPlayer a (gameTick now rnd (fireTimer h s)) = Some p'
                \<and> ammo p' = ammo p \<and> isReloading p' = isReloading p \<and> isDead p'))
    \<and> (\<exists>p'. getPlayer a (respawnPlayer a (fireTimer h s)) = Some p'
          \<and> ammo p' = clipSize (WEAPON_STATS (weapon p)) \<and> \<not> isReloading p' \<and> \<not> isDead p')
    \<and> (\<forall>mv wp. \<exists>p'. getPlayer a (setPlayerLoadout a mv wp (fireTimer h s)) = Some p'
          \<and> ammo p' = clipSize (WEAPON_STATS wp) \<and> \<not> isReloading p' \<and> isDead p')
    \<and> (roomOk s \<longrightarrow> (\<forall>evs. list_all (\<lambda>ev. \<not> resets a ev) evs \<longrightarrow>
          players (run evs (fireTimer h s)) = [] \<or> stillDead a p (run evs (fireTimer h s))))"
proof -
  let ?s' = "clearTimeout h s"
  have g': "getPlayer a ?s' = Some p" using assms(2) by (simp add: getPlayer_def)
  have f: "fireTimer h s = ?s'"
    using assms(3,4) g' by (simp add: fireTimer_def)
  have d': "distinct (map pid (players ?s'))" using assms(1) by simp
  have none: "map_of (pendingTimers ?s') h = None"
    by (simp add: clearTimeout_def map_of_eq_None_iff image_iff)
  have mr: "manualReload a ?s' = ?s'" using g' assms(3) by (simp add: manualReload_def)
  have tick: "players (gameTick now rnd ?s') = []
          \<or> (\<exists>p'. getPlayer a (gameTick now rnd ?s') = Some p'
                \<and> ammo p' = ammo p \<and> isReloading p' = isReloading p \<and> isDead p')" for now rnd
    using evolves_dead[OF gameTick_evolves[OF d'] g' assms(3), of now rnd] assms(3) by auto
  let ?f = "\<lambda>q. q\<lparr>posX := fst (spawnPoints (ARENAS CENTER) ! (indexOf a (map pid (players ?s')) mod length (spawnPoints (ARENAS CENTER)))),
         posY := snd (spawnPoints (ARENAS CENTER) ! (indexOf a (map pid (players ?s')) mod length (spawnPoints (ARENAS CENTER)))),
                      posZ := DEFAULT_Z, velocityX := 0, velocityY := 0, velocityZ := 0,
                      health := MAX_HEALTH, fuel := maxFuel q, currentArena := CENTER,
                      isDead := False, ammo := clipSize (WEAPON_STATS (weapon q)),
                      isReloading := False, isInSpawn := True\<rparr>"
  have "players (respawnPlayer a ?s') = map (\<lambda>q. if pid q = a then ?f q else q) (players ?s')"
    using g' assms(3) by (simp add: respawnPlayer_def Let_def o_def cong: if_cong)
  moreover have "find (\<lambda>q. pid q = a) (map (\<lambda>q. if pid q = a then ?f q else q) (players ?s')) = Some (?f p)"
    by (rule find_map_upd) (use g' in \<open>simp_all add: getPlayer_def\<close>)
  ultimately have "getPlayer a (respawnPlayer a ?s') = Some (?f p)"
    by (simp add: getPlayer_def)
  then have rs: "\<exists>p'. getPlayer a (respawnPlayer a ?s') = Some p'
          \<and> ammo p' = clipSize (WEAPON_STATS (weapon p)) \<and> \<not> isReloading p' \<and> \<not> isDead p'"
    by simp
  have lo: "\<exists>p'. getPlayer a (setPlayerLoadout a mv wp ?s') = Some p'
          \<and> ammo p' = clipSize (WEAPON_STATS wp) \<and> \<not> isReloading p' \<and> isDead p'" for mv wp
  proof -
    let ?g = "\<lambda>q::PlayerState. q\<lparr>movement := mv, weapon := wp,
                       maxFuel := fuelCapacity (MOVEMENT_STATS mv),
                       fuel := fuelCapacity (MOVEMENT_STATS mv),
                       ammo := clipSize (WEAPON_STATS wp), isReloading := False\<rparr>"
    have "players (setPlayerLoadout a mv wp ?s') = map (\<lambda>q. if pid q = a then ?g q else q) (players ?s')"
      using g' by (simp add: setPlayerLoadout_def Let_def getPlayer_def)
    moreover have "find (\<lambda>q. pid q = a) (map (\<lambda>q. if pid q = a then ?g q else q) (players ?s')) = Some (?g p)"
      by (rule find_map_upd) (use g' in \<open>simp_all add: getPlayer_def\<close>)
    ultimately have "getPlayer a (setPlayerLoadout a mv wp ?s') = Some (?g p)"
      by (simp add: getPlayer_def)
    then show ?thesis using assms(3) by simp
  qed
  have sd: "stillDead a p ?s'" using g' assms(3) by (simp add: stillDead_def)
  have rn: "players (run evs ?s') = [] \<or> stillDead a p (run evs ?s')"
    if ok: "roomOk s" and evs: "list_all (\<lambda>ev. \<not> resets a ev) evs" for evs
  proof -
    have "roomOk ?s'" by (rule roomOk_clearTimeout[OF ok])
    then show ?thesis using sd evs by (intro stillDead_run) simp_all
  qed
  have A: "fireTimer h s = clearTimeout h s
    \<and> players (fireTimer h s) = players s
    \<and> reloadTimers (fireTimer h s) = reloadTimers s
    \<and> getPlayer a (fireTimer h s) = Some p
    \<and> map_of (pendingTimers (fireTimer h s)) h = None
    \<and> manualReload a (fireTimer h s) = fireTimer h s
    \<and> (\<forall>now rnd. players (gameTick now rnd (fireTimer h s)) = []
          \<or> (\<exists>p'. getPlayer a (gameTick now rnd (fireTimer h s)) = Some p'
                \<and> ammo p' = ammo p \<and> isReloading p' = isReloading p \<and> isDead p'))
    \<and> (\<exists>p'. getPlayer a (respawnPlayer a (fireTimer h s)) = Some p'
          \<and> ammo p' = clipSize (WEAPON_STATS (weapon p)) \<and> \<not> isReloading p' \<and> \<not> isDead p')"
    unfolding f using g' none mr tick rs by simp
  have B: "\<forall>mv wp. \<exists>p'. getPlayer a (setPlayerLoadout a mv wp (fireTimer h s)) = Some p'
          \<and> ammo p' = clipSize (WEAPON_STATS wp) \<and> \<not> isReloading p' \<and> isDead p'"
    unfolding f using lo by blast
  have C: "roomOk s \<longrightarrow> (\<forall>evs. list_all (\<lambda>ev. \<not> resets a ev) evs \<longrightarrow>
          players (run evs (fireTimer h s)) = [] \<or> stillDead a p (run evs (fireTimer h s)))"
    unfolding f using rn by blast
  show ?thesis using A B C by blast
qed

text \<open>
  Witness for C10 (amended): the player of \<open>exDeadReloading\<close> died with an empty clip
  while reloading; its timer fires, ammo stays 0 and the flag stays set; a reload request,
  an input that holds the shoot flag, a tick and a second firing of the spent timer leave
  it so; the respawn gives the 4 rockets back, and a change to the sniper rifle gives its
  one round to the dead player.
\<close>

theorem dead_reload_timer_is_noop_witness:
  "distinct (map pid (players exDeadReloading))
   \<and> getPlayer ''a'' exDeadReloading = Some ((exPlayer ''a'')\<lparr>isDead := True, health := 0,
         deaths := 1, ammo := 0, isReloading := True\<rparr>)
   \<and> isDead ((exPlayer ''a'')\<lparr>isDead := True, health := 0,
         deaths := 1, ammo := 0, isReloading := True\<rparr>)
   \<and> map_of (pendingTimers exDeadReloading) 0 = Some (ReloadDone ''a'' ROCKET)
   \<and> players (fireTimer 0 exDeadReloading) = players exDeadReloading
   \<and> map (\<lambda>p. (ammo p, isReloading p)) (players (fireTimer 0 exDeadReloading)) = [(0, True)]
   \<and> (\<exists>p'. getPlayer ''a'' (respawnPlayer ''a'' (fireTimer 0 exDeadReloading)) = Some p'
          \<and> ammo p' = 4 \<and> \<not> isReloading p' \<and> \<not> isDead p')
   \<and> (\<exists>p'. getPlayer ''a'' (setPlayerLoadout ''a'' FIRE_JETPACK SNIPER
            (fireTimer 0 exDeadReloading)) = Some p'
          \<and> ammo p' = 1 \<and> \<not> isReloading p' \<and> isDead p')
   \<and> roomOk exDeadReloading
   \<and> list_all (\<lambda>ev. \<not> resets ''a'' ev)
         [Reload ''a'', Input ''a'' shootInput, Tick 5000 (\<lambda>_. 0), Timer 0]
   \<and> (players (run [Reload ''a'', Input ''a'' shootInput, Tick 5000 (\<lambda>_. 0), Timer 0]
          (fireTimer 0 exDeadReloading)) = []
       \<or> stillDead ''a'' ((exPlayer ''a'')\<lparr>isDead := True, health := 0,
              deaths := 1, ammo := 0, isReloading := True\<rparr>)
            (run [Reload ''a'', Input ''a'' shootInput, Tick 5000 (\<lambda>_. 0), Timer 0]
               (fireTimer 0 exDeadReloading)))"
proof -
  have h: "distinct (map pid (players exDeadReloading))"
   "getPlayer ''a'' exDeadReloading = Some ((exPlayer ''a'')\<lparr>isDead := True, health := 0,
         deaths := 1, ammo := 0, isReloading := True\<rparr>)"
   "isDead ((exPlayer ''a'')\<lparr>isDead := True, health := 0,
         deaths := 1, ammo := 0, isReloading := True\<rparr>)"
   "map_of (pendingTimers exDeadReloading) 0 = Some (ReloadDone ''a'' ROCKET)"
    by (simp_all add: exDeadReloading_def getPlayer_def)
  have p: "players exDeadReloading = [(exPlayer ''a'')\<lparr>isDead := True, health := 0,
         deaths := 1, ammo := 0, isReloading := True\<rparr>]"
    by (simp add: exDeadReloading_def)
  have c: "clipSize (WEAPON_STATS (weapon ((exPlayer ''a'')\<lparr>isDead := True, health := 0,
         deaths := 1, ammo := 0, isReloading := True\<rparr>))) = 4" by simp
  note T = dead_reload_timer_is_noop[OF h]
  from T have 1: "players (fireTimer 0 exDeadReloading) = players exDeadReloading" by blast
  then have 2: "map (\<lambda>p. (ammo p, isReloading p)) (players (fireTimer 0 exDeadReloading))
      = [(0, True)]" by (simp add: p)
  from T have 3: "\<exists>p'. getPlayer ''a'' (respawnPlayer ''a'' (fireTimer 0 exDeadReloading)) = Some p'
          \<and> ammo p' = 4 \<and> \<not> isReloading p' \<and> \<not> isDead p'"
    unfolding c by blast
  from T have "\<exists>p'. getPlayer ''a'' (setPlayerLoadout ''a'' FIRE_JETPACK SNIPER
            (fireTimer 0 exDeadReloading)) = Some p'
          \<and> ammo p' = clipSize (WEAPON_STATS SNIPER) \<and> \<not> isReloading p' \<and> isDead p'" by blast
  then have 4: "\<exists>p'. getPlayer ''a'' (setPlayerLoadout ''a'' FIRE_JETPACK SNIPER
            (fireTimer 0 exDeadReloading)) = Some p'
          \<and> ammo p' = 1 \<and> \<not> isReloading p' \<and> isDead p'" by simp
  have ok: "roomOk exDeadReloading"
    by (simp add: roomOk_def reloadOk_def playerOk_def bounds_def exDeadReloading_def getPlayer_def)
  have la: "list_all (\<lambda>ev. \<not> resets ''a'' ev)
         [Reload ''a'', Input ''a'' shootInput, Tick 5000 (\<lambda>_. 0), Timer 0]" by simp
  from T ok la have 5: "players (run [Reload ''a'', Input ''a'' shootInput, Tick 5000 (\<lambda>_. 0), Timer 0]
          (fireTimer 0 exDeadReloading)) = []
       \<or> stillDead ''a'' ((exPlayer ''a'')\<lparr>isDead := True, health := 0,
              deaths := 1, ammo := 0, isReloading := True\<rparr>)
            (run [Reload ''a'', Input ''a'' shootInput, Tick 5000 (\<lambda>_. 0), Timer 0]
               (fireTimer 0 exDeadReloading))" by blast
  show ?thesis using h 1 2 3 4 ok la 5 by blast
qed

subsection \<open>C7: occlusion and the beam of a hitscan shot\<close>



subsection \<open>C5: the bounds of altitude, health, ammunition and fuel\<close>

text \<open>
  C5: in every room reached from a new room by any sequence of operations (starting the
  match and its loop, ticks with any clock and random values, inputs, respawns, manual
  reloads, loadout changes, timer firings and departures), every player, whatever its
  movement archetype, has its altitude within \<open>[0, 100]\<close>, its health within
  \<open>[0, maxHealth]\<close>, its ammunition within \<open>[0, clipSize]\<close> of its weapon and its fuel
  within \<open>[0, maxFuel]\<close>. As the sequence is arbitrary, the bounds hold after each
  operation.
\<close>

theorem bounds_hold_after_every_operation:
  assumes "p \<in> set (players (run evs (newRoom roster)))"
  shows "MIN_Z \<le> posZ p \<and> posZ p \<le> MAX_Z \<and> 0 \<le> health p \<and> health p \<le> maxHealth p
    \<and> 0 \<le> ammo p \<and> ammo p \<le> clipSize (WEAPON_STATS (weapon p))
    \<and> 0 \<le> fuel p \<and> fuel p \<le> maxFuel p"
proof -
  have "roomOk (run evs (newRoom roster))" by (rule roomOk_run[OF roomOk_newRoom])
  then have "playerOk p" using assms unfolding roomOk_def by blast
  then show ?thesis by (simp add: playerOk_def bounds_def)
qed

text \<open>The two players of a started match are within the bounds.\<close>

theorem bounds_hold_after_every_operation_witness:
  "exSpawned \<in> set (players (run [StartGame, StartGameLoop] (newRoom exRoster)))
   \<and> MIN_Z \<le> posZ exSpawned \<and> posZ exSpawned \<le> MAX_Z
   \<and> 0 \<le> health exSpawned \<and> health exSpawned \<le> maxHealth exSpawned
   \<and> 0 \<le> ammo exSpawned \<and> ammo exSpawned \<le> clipSize (WEAPON_STATS (weapon exSpawned))
   \<and> 0 \<le> fuel exSpawned \<and> fuel exSpawned \<le> maxFuel exSpawned"
proof -
  have m: "exSpawned \<in> set (players (run [StartGame, StartGameLoop] (newRoom exRoster)))"
    by (simp add: started_players)
  from bounds_hold_after_every_operation[OF m] m show ?thesis by blast
qed

subsection \<open>C8: the cap on live projectiles\<close>

text \<open>
  C8: in every room reached from a new room by any sequence of operations, every player
  owns at most \<^verbatim>\<open>MAX_PROJECTILES_PER_PLAYER\<close> live projectiles; and in any room, a
  shot attempted by a player that owns that many is dropped: \<^verbatim>\<open>tryShoot\<close> leaves the
  room as it is (no projectile, no ammunition spent, no cooldown started).
\<close>

theorem projectile_cap_never_exceeded:
  "length (filter (\<lambda>q. ownerId q = a) (projectiles (run evs (newRoom roster))))
      \<le> MAX_PROJECTILES_PER_PLAYER
   \<and> (MAX_PROJECTILES_PER_PLAYER \<le> length (filter (\<lambda>q. ownerId q = a) (projectiles s))
        \<longrightarrow> tryShoot now rnd a s = s)"
proof -
  have "capOk (run evs (newRoom roster))" by (rule capOk_run[OF capOk_newRoom])
  then have 1: "length (filter (\<lambda>q. ownerId q = a) (projectiles (run evs (newRoom roster))))
      \<le> MAX_PROJECTILES_PER_PLAYER"
    unfolding capOk_def by blast
  have 2: "tryShoot now rnd a s = s"
    if "MAX_PROJECTILES_PER_PLAYER \<le> length (filter (\<lambda>q. ownerId q = a) (projectiles s))"
    using tryShoot_cases[of now rnd a s] that by auto
  show ?thesis using 1 2 by blast
qed

text \<open>A player with 50 live rockets, ammunition left and no cooldown shoots in vain.\<close>

theorem projectile_cap_never_exceeded_witness:
  "length (filter (\<lambda>q. ownerId q = ''a'')
       (projectiles (run [StartGame, StartGameLoop] (newRoom exRoster))))
      \<le> MAX_PROJECTILES_PER_PLAYER
   \<and> MAX_PROJECTILES_PER_PLAYER \<le> length (filter (\<lambda>q. ownerId q = ''a'') (projectiles exAtCap))
   \<and> tryShoot 5000 0 ''a'' exAtCap = exAtCap"
proof -
  have h: "MAX_PROJECTILES_PER_PLAYER \<le> length (filter (\<lambda>q. ownerId q = ''a'') (projectiles exAtCap))"
    by (simp add: exAtCap_def filter_map o_def)
  from projectile_cap_never_exceeded[of "''a''" "[StartGame, StartGameLoop]" exRoster exAtCap 5000 0] h
  show ?thesis by blast
qed

end
